theory Spec2Isabelle
  imports Main
begin

section \<open>JavaScript values and errors\<close>

text \<open>
  The values that can stand where the source expects a pattern fragment or a default
  policy. \<open>JNum n\<close> is a non-negative integer below \<open>10^21\<close> (the numbers that
  JavaScript prints as plain decimal digits); other numbers, objects and nested arrays
  are outside the model. Text is a \<open>string\<close> of ASCII characters.
\<close>

datatype jsprim = JUndefined | JNull | JBool bool | JNum nat | JStr string

text \<open>A value as the code passes it around: a bare scalar or an array of scalars.\<close>

datatype jsval = Scalar jsprim | Arr "jsprim list"

datatype fs_errno = ENOENT | EACCES | ENOTDIR

text \<open>
  \<open>GAError\<close> is the application error of \<^verbatim>\<open>utils/gaError\<close> with its message,
  \<open>TypeError\<close> the error the JavaScript runtime itself throws, \<open>FsError\<close> the error
  of a failed \<^verbatim>\<open>fs\<close> call.
\<close>

datatype error = GAError string | TypeError | FsError fs_errno

definition js_typeof :: "jsprim \<Rightarrow> string" where
  "js_typeof v = (case v of JUndefined \<Rightarrow> ''undefined'' | JNull \<Rightarrow> ''object''
     | JBool _ \<Rightarrow> ''boolean'' | JNum _ \<Rightarrow> ''number'' | JStr _ \<Rightarrow> ''string'')"

definition js_truthy :: "jsprim \<Rightarrow> bool" where
  "js_truthy v = (case v of JUndefined \<Rightarrow> False | JNull \<Rightarrow> False | JBool b \<Rightarrow> b
     | JNum n \<Rightarrow> n \<noteq> 0 | JStr s \<Rightarrow> s \<noteq> [])"

text \<open>An array is an object, hence truthy even when empty.\<close>

definition val_truthy :: "jsval \<Rightarrow> bool" where
  "val_truthy v = (case v of Scalar x \<Rightarrow> js_truthy x | Arr _ \<Rightarrow> True)"

definition digit_char :: "nat \<Rightarrow> char" where
  "digit_char d = char_of (48 + d)"

function nat_to_string :: "nat \<Rightarrow> string" where
  "nat_to_string n =
     (if n < 10 then [digit_char n] else nat_to_string (n div 10) @ [digit_char (n mod 10)])"
  by pat_completeness auto
termination
  by (relation "measure (\<lambda>n. n)") auto

declare nat_to_string.simps [simp del]

text \<open>The string a value turns into when it is concatenated to a string.\<close>

definition js_to_string :: "jsprim \<Rightarrow> string" where
  "js_to_string v = (case v of JUndefined \<Rightarrow> ''undefined'' | JNull \<Rightarrow> ''null''
     | JBool b \<Rightarrow> (if b then ''true'' else ''false'') | JNum n \<Rightarrow> nat_to_string n
     | JStr s \<Rightarrow> s)"

text \<open>
  \<^verbatim>\<open>p[0]\<close>: the first character of a string, \<^verbatim>\<open>undefined\<close> on an empty string, a
  number or a boolean; reading a property of \<^verbatim>\<open>null\<close> or \<^verbatim>\<open>undefined\<close> throws.
\<close>

definition js_index0 :: "jsprim \<Rightarrow> error + jsprim" where
  "js_index0 v = (case v of JUndefined \<Rightarrow> Inl TypeError | JNull \<Rightarrow> Inl TypeError
     | JStr (c # _) \<Rightarrow> Inr (JStr [c]) | _ \<Rightarrow> Inr JUndefined)"

text \<open>\<^verbatim>\<open>path.sep\<close> on POSIX.\<close>

definition path_sep :: string where
  "path_sep = ''/''"

section \<open>utils/regex: escaping and the three sanitizers\<close>

definition backslash :: char where
  "backslash = CHR 0x5C"

text \<open>The character class of \<^verbatim>\<open>regexEscape\<close>.\<close>

definition escape_chars :: "char list" where
  "escape_chars = ''-/'' @ [backslash] @ ''^$*+?.()|[]{}''"

definition escape_char :: "char \<Rightarrow> string" where
  "escape_char c = (if c \<in> set escape_chars then [backslash, c] else [c])"

text \<open>\<^verbatim>\<open>s.replace(/[...]/g, '\\$&')\<close>: every character of the class gets a backslash.\<close>

definition escape_text :: "string \<Rightarrow> string" where
  "escape_text t = concat (map escape_char t)"

definition regexEscape :: "jsprim \<Rightarrow> error + string" where
  "regexEscape s =
     (case s of
        JStr t \<Rightarrow> Inr (escape_text t)
      | _ \<Rightarrow> Inl (GAError (''regexEscape requires a string, we got a '' @ js_typeof s @ ''.'')))"

text \<open>
  The body of each \<^verbatim>\<open>forEach\<close> callback: from the accumulated \<open>ap\<close> and the next
  fragment \<open>p\<close> to the new \<open>ap\<close>, or the error thrown.
\<close>

definition sanitizeExt_step :: "string \<Rightarrow> jsprim \<Rightarrow> error + string" where
  "sanitizeExt_step ap p =
     (case js_index0 p of
        Inl e \<Rightarrow> Inl e
      | Inr c \<Rightarrow>
          (let p1 = (if c \<noteq> JStr ''.'' then JStr (''.'' @ js_to_string p) else p);
               ap1 = (if ap \<noteq> [] then ap @ ''|'' else ap)
           in case regexEscape p1 of Inl e \<Rightarrow> Inl e | Inr s \<Rightarrow> Inr (ap1 @ s)))"

definition sanitizeFile_step :: "string \<Rightarrow> jsprim \<Rightarrow> error + string" where
  "sanitizeFile_step ap p =
     (case js_index0 p of
        Inl e \<Rightarrow> Inl e
      | Inr c \<Rightarrow>
          (let p1 = (if c = JStr path_sep then JStr (drop 1 (js_to_string p)) else p);
               ap1 = (if ap \<noteq> [] then ap @ ''|'' else ap)
           in case regexEscape p1 of Inl e \<Rightarrow> Inl e | Inr s \<Rightarrow> Inr (ap1 @ s)))"

definition sanitizePath_step :: "string \<Rightarrow> jsprim \<Rightarrow> error + string" where
  "sanitizePath_step ap p =
     (case js_index0 p of
        Inl e \<Rightarrow> Inl e
      | Inr c \<Rightarrow>
          (let p1 = (if c \<noteq> JStr path_sep then JStr (path_sep @ js_to_string p) else p);
               ap1 = (if ap \<noteq> [] then ap @ ''|'' else ap)
           in case regexEscape p1 of Inl e \<Rightarrow> Inl e | Inr s \<Rightarrow> Inr (ap1 @ s)))"

text \<open>\<^verbatim>\<open>s.forEach\<close> with the accumulator threaded; a throw ends the loop.\<close>

fun forEach_ap :: "(string \<Rightarrow> jsprim \<Rightarrow> error + string) \<Rightarrow> string \<Rightarrow> jsprim list \<Rightarrow> error + string" where
  "forEach_ap f ap [] = Inr ap"
| "forEach_ap f ap (p # ps) = (case f ap p of Inl e \<Rightarrow> Inl e | Inr ap1 \<Rightarrow> forEach_ap f ap1 ps)"

definition sanitizeExtRegex :: "jsprim list \<Rightarrow> error + string" where
  "sanitizeExtRegex s = forEach_ap sanitizeExt_step [] s"

definition sanitizeFileRegex :: "jsprim list \<Rightarrow> error + string" where
  "sanitizeFileRegex s = forEach_ap sanitizeFile_step [] s"

definition sanitizePathRegex :: "jsprim list \<Rightarrow> error + string" where
  "sanitizePathRegex s = forEach_ap sanitizePath_step [] s"

section \<open>The regular expressions the parser builds\<close>

text \<open>
  A \<^verbatim>\<open>RegExp\<close> object: its source text and its flags. The runtime's matcher is
  modelled for the patterns \<^verbatim>\<open>_configureRegex\<close> builds: \<^verbatim>\<open>^(\<close>, alternatives
  separated by \<^verbatim>\<open>|\<close>, \<^verbatim>\<open>)\<close>, each alternative a sequence of plain characters and
  escaped characters of \<open>escape_chars\<close>. \<open>parse_alts\<close> reads the text after
  \<^verbatim>\<open>^(\<close> into the alternatives' literal texts; any other syntax gives \<open>None\<close>.
\<close>

datatype regexp = RegExp (source: string) (flags: string)

fun parse_alts :: "string \<Rightarrow> string \<Rightarrow> string list option" where
  "parse_alts cur [] = None"
| "parse_alts cur (c # cs) =
     (if c = backslash then
        (case cs of
           [] \<Rightarrow> None
         | d # ds \<Rightarrow> if d \<in> set escape_chars then parse_alts (cur @ [d]) ds else None)
      else if c = CHR ''|'' then map_option ((#) cur) (parse_alts [] cs)
      else if c = CHR '')'' then (if cs = [] then Some [cur] else None)
      else if c \<in> set ''^$*+?.([]{}'' then None
      else parse_alts (cur @ [c]) cs)"

definition parse_pattern :: "string \<Rightarrow> string list option" where
  "parse_pattern src = (if take 2 src = ''^('' then parse_alts [] (drop 2 src) else None)"

text \<open>Case folding of the \<^verbatim>\<open>i\<close> flag on ASCII text.\<close>

definition canonicalize :: "char \<Rightarrow> char" where
  "canonicalize c =
     (let n = (of_char c :: nat) in if 97 \<le> n \<and> n \<le> 122 then char_of (n - 32) else c)"

definition fold_case :: "string \<Rightarrow> string \<Rightarrow> string" where
  "fold_case fl s = (if CHR ''i'' \<in> set fl then map canonicalize s else s)"

text \<open>
  \<open>alt\<close> matches at position 0 of \<open>s\<close>; the result is the matched text of \<open>s\<close>.
\<close>

definition match_alt :: "string \<Rightarrow> string \<Rightarrow> string \<Rightarrow> string option" where
  "match_alt fl alt s =
     (if length alt \<le> length s \<and> fold_case fl (take (length alt) s) = fold_case fl alt
      then Some (take (length alt) s) else None)"

text \<open>Alternatives are tried from left to right; the first that matches wins.\<close>

fun first_match :: "string \<Rightarrow> string list \<Rightarrow> string \<Rightarrow> string option" where
  "first_match fl [] s = None"
| "first_match fl (alt # alts) s =
     (case match_alt fl alt s of Some m \<Rightarrow> Some m | None \<Rightarrow> first_match fl alts s)"

text \<open>
  \<^verbatim>\<open>re.exec(s)\<close>: \<open>Some\<close> of \<^verbatim>\<open>result[0]\<close>, or \<open>None\<close> for \<^verbatim>\<open>null\<close>. The pattern
  is anchored by \<^verbatim>\<open>^\<close>, so only position 0 is tried.
\<close>

definition regexp_exec :: "regexp \<Rightarrow> string \<Rightarrow> string option" where
  "regexp_exec r s =
     (case parse_pattern (source r) of
        None \<Rightarrow> None
      | Some alts \<Rightarrow> first_match (flags r) alts s)"

section \<open>The parser's configuration and construction\<close>

datatype category =
  AllowPaths | IgnorePaths | IgnoreDirs | OnlyFiles | AllowFiles | IgnoreFiles
  | IgnoreFilesFirst | IgnoreExts

text \<open>
  The options object: the eight rule lists (\<open>Scalar JUndefined\<close> when the option is not
  given) and the two default policies, which are whatever value the caller supplied.
\<close>

record options =
  rules :: "category \<Rightarrow> jsval"
  ignoreFilesByDefault :: jsprim
  ignorePathsByDefault :: jsprim

record fsparser =
  startPath :: string
  absPath :: string
  opts :: options
  regex :: "category \<Rightarrow> regexp option"
  log :: "(string \<times> string) list"
  results :: "string list"

text \<open>
  Modelled from the spec: \<^verbatim>\<open>arr.makeArray\<close> of \<^verbatim>\<open>utils/array\<close>, which is not among
  the sources; the spec calls it "a small array-normalization helper (wraps a scalar into
  a single-element sequence)".
\<close>

definition makeArray :: "jsval \<Rightarrow> jsprim list" where
  "makeArray v = (case v of Scalar x \<Rightarrow> [x] | Arr xs \<Rightarrow> xs)"

text \<open>
  The body shared by the three loops of \<^verbatim>\<open>_configureRegex\<close>, with the sanitizer of the
  loop as parameter.
\<close>

definition configure_item ::
    "(jsprim list \<Rightarrow> error + string) \<Rightarrow> fsparser \<Rightarrow> category \<Rightarrow> error + fsparser" where
  "configure_item sanitize p item =
     (if val_truthy (rules (opts p) item) then
        (let a = makeArray (rules (opts p) item);
             p1 = p\<lparr>opts := (opts p)\<lparr>rules := (rules (opts p))(item := Arr a)\<rparr>\<rparr>
         in case sanitize a of
              Inl e \<Rightarrow> Inl e
            | Inr ap \<Rightarrow>
                if ap \<noteq> [] then
                  Inr (p1\<lparr>regex := (regex p1)(item := Some (RegExp (''^('' @ ap @ '')'') ''i''))\<rparr>)
                else Inr p1)
      else Inr p)"

fun for_items ::
    "(fsparser \<Rightarrow> category \<Rightarrow> error + fsparser) \<Rightarrow> fsparser \<Rightarrow> category list \<Rightarrow> error + fsparser" where
  "for_items f p [] = Inr p"
| "for_items f p (item # items) =
     (case f p item of Inl e \<Rightarrow> Inl e | Inr p1 \<Rightarrow> for_items f p1 items)"

definition configureRegex :: "fsparser \<Rightarrow> error + fsparser" where
  "configureRegex p =
     (case for_items (configure_item sanitizePathRegex) p [AllowPaths, IgnorePaths] of
        Inl e \<Rightarrow> Inl e
      | Inr p1 \<Rightarrow>
          (case for_items (configure_item sanitizeFileRegex) p1
                  [OnlyFiles, AllowFiles, IgnoreFiles, IgnoreFilesFirst, IgnoreDirs] of
             Inl e \<Rightarrow> Inl e
           | Inr p2 \<Rightarrow> configure_item sanitizeExtRegex p2 IgnoreExts))"

text \<open>
  The constructor. The options are an object (always truthy), so \<^verbatim>\<open>_configureRegex\<close>
  runs; an error it throws leaves no parser.
\<close>

definition FsParser_new :: "string \<Rightarrow> string \<Rightarrow> options \<Rightarrow> error + fsparser" where
  "FsParser_new sp ap os =
     configureRegex \<lparr>startPath = sp, absPath = ap, opts = os, regex = (\<lambda>_. None),
                     log = [], results = []\<rparr>"

text \<open>The options object with no option given.\<close>

definition no_options :: options where
  "no_options = \<lparr>rules = (\<lambda>_. Scalar JUndefined), ignoreFilesByDefault = JUndefined,
                  ignorePathsByDefault = JUndefined\<rparr>"

section \<open>Strings and paths of the runtime\<close>

text \<open>
  \<^verbatim>\<open>s.replace(pat, '')\<close> with a string pattern: the first occurrence of \<open>pat\<close> in
  \<open>s\<close>, wherever it is, is removed.
\<close>

fun str_remove_first :: "string \<Rightarrow> string \<Rightarrow> string" where
  "str_remove_first [] pat = []"
| "str_remove_first (c # cs) pat =
     (if take (length pat) (c # cs) = pat then drop (length pat) (c # cs)
      else c # str_remove_first cs pat)"

text \<open>\<^verbatim>\<open>s.split(sep)\<close> for a one-character separator.\<close>

fun js_split :: "char \<Rightarrow> string \<Rightarrow> string list" where
  "js_split sep [] = [[]]"
| "js_split sep (c # cs) =
     (if c = sep then [] # js_split sep cs
      else (case js_split sep cs of [] \<Rightarrow> [[c]] | x # xs \<Rightarrow> (c # x) # xs))"

fun js_join :: "string \<Rightarrow> string list \<Rightarrow> string" where
  "js_join sep [] = []"
| "js_join sep [x] = x"
| "js_join sep (x # y # ys) = x @ sep @ js_join sep (y # ys)"

text \<open>
  The POSIX \<^verbatim>\<open>path\<close> module of Node. \<open>path_basename\<close>: trailing separators are
  dropped, the result is what follows the last separator left. \<open>path_extname\<close>: from
  the last dot of the basename to its end; empty when there is no dot, when the only dot
  is the first character, and for \<^verbatim>\<open>..\<close>.
\<close>

definition path_basename :: "string \<Rightarrow> string" where
  "path_basename p =
     rev (takeWhile (\<lambda>c. c \<noteq> CHR ''/'') (dropWhile (\<lambda>c. c = CHR ''/'') (rev p)))"

definition path_extname :: "string \<Rightarrow> string" where
  "path_extname p =
     (let b = path_basename p;
          suffix = rev (takeWhile (\<lambda>c. c \<noteq> CHR ''.'') (rev b))
      in if CHR ''.'' \<notin> set b \<or> b = ''..'' \<or> length b = Suc (length suffix) then []
         else CHR ''.'' # suffix)"

text \<open>
  \<^verbatim>\<open>normalizeString\<close>: empty and \<^verbatim>\<open>.\<close> segments vanish, \<^verbatim>\<open>..\<close> removes the
  segment before it; above the start it is kept only for a relative path. \<open>acc\<close> holds
  the segments kept so far, last first.
\<close>

fun normalize_segs :: "bool \<Rightarrow> string list \<Rightarrow> string list \<Rightarrow> string list" where
  "normalize_segs allowAboveRoot acc [] = rev acc"
| "normalize_segs allowAboveRoot acc (s # ss) =
     (if s = [] \<or> s = ''.'' then normalize_segs allowAboveRoot acc ss
      else if s = ''..'' then
        (case acc of
           [] \<Rightarrow> normalize_segs allowAboveRoot (if allowAboveRoot then [s] else []) ss
         | a # as \<Rightarrow>
             if a = ''..'' then normalize_segs allowAboveRoot (if allowAboveRoot then s # acc else acc) ss
             else normalize_segs allowAboveRoot as ss)
      else normalize_segs allowAboveRoot (s # acc) ss)"

definition path_normalize :: "string \<Rightarrow> string" where
  "path_normalize p =
     (if p = [] then ''.''
      else
        (let isAbsolute = (hd p = CHR ''/'');
             trailingSeparator = (last p = CHR ''/'');
             q = js_join ''/'' (normalize_segs (\<not> isAbsolute) [] (js_split (CHR ''/'') p))
         in if q = [] then (if isAbsolute then ''/'' else if trailingSeparator then ''./'' else ''.'')
            else (if isAbsolute then ''/'' else []) @ q @ (if trailingSeparator then ''/'' else [])))"

text \<open>
  \<^verbatim>\<open>path.join\<close> validates its arguments in order and throws a \<^verbatim>\<open>TypeError\<close> at the
  first that is not a string; the non-empty ones are joined by the separator and
  normalized.
\<close>

fun join_args :: "jsval list \<Rightarrow> error + string list" where
  "join_args [] = Inr []"
| "join_args (Scalar (JStr s) # as) =
     (case join_args as of Inl e \<Rightarrow> Inl e | Inr ss \<Rightarrow> Inr (if s = [] then ss else s # ss))"
| "join_args (_ # as) = Inl TypeError"

definition path_join :: "jsval list \<Rightarrow> error + string" where
  "path_join args =
     (case join_args args of
        Inl e \<Rightarrow> Inl e
      | Inr ss \<Rightarrow> Inr (if ss = [] then ''.'' else path_normalize (js_join ''/'' ss)))"

section \<open>The two decisions\<close>

text \<open>
  \<^verbatim>\<open>_logMsg\<close> appends a record to the log of the parser; the call to the external
  trace sink \<^verbatim>\<open>syslog.trace\<close> leaves the parser untouched and is not modelled.
\<close>

definition logMsg :: "string \<Rightarrow> string \<Rightarrow> fsparser \<Rightarrow> fsparser" where
  "logMsg func msg p = p\<lparr>log := log p @ [(func, msg)]\<rparr>"

text \<open>The path relative to \<open>absPath\<close>, made to begin with the separator.\<close>

definition rel_path :: "fsparser \<Rightarrow> string \<Rightarrow> string" where
  "rel_path p filePath =
     (let rel = str_remove_first filePath (absPath p)
      in if path_sep \<noteq> take 1 rel then path_sep @ rel else rel)"

text \<open>
  \<^verbatim>\<open>if (this.#regex.item) { let result = this.#regex.item.exec(s); if (null !== result)\<close>:
  the matched text when the category has a matcher and it matches.
\<close>

definition rule_exec :: "fsparser \<Rightarrow> category \<Rightarrow> string \<Rightarrow> string option" where
  "rule_exec p item s = (case regex p item of None \<Rightarrow> None | Some r \<Rightarrow> regexp_exec r s)"

definition doWeProcessFile :: "fsparser \<Rightarrow> string \<Rightarrow> bool \<times> fsparser" where
  "doWeProcessFile p0 filePath =
     (let rel = rel_path p0 filePath;
          base = path_basename filePath;
          ext = path_extname filePath;
          fn = ''FsParser:_doWeProcessFile'';
          p = logMsg fn (''Processing file: '' @ rel) p0
      in case regex p OnlyFiles of
           Some r \<Rightarrow>
             (case regexp_exec r base of
                Some m \<Rightarrow> (True, logMsg fn (''   => only file first via: '' @ m) p)
              | None \<Rightarrow> (False, p))
         | None \<Rightarrow>
        (case rule_exec p IgnoreFilesFirst base of
           Some m \<Rightarrow> (False, logMsg fn (''   => ignore file first via: '' @ m) p)
         | None \<Rightarrow>
        (case rule_exec p AllowFiles base of
           Some m \<Rightarrow> (True, logMsg fn (''   => allow file via: '' @ m) p)
         | None \<Rightarrow>
        (case rule_exec p IgnoreFiles base of
           Some m \<Rightarrow> (False, logMsg fn (''   => ignore file via: '' @ m) p)
         | None \<Rightarrow>
        (case rule_exec p IgnoreExts ext of
           Some m \<Rightarrow> (False, logMsg fn (''   => ignore file extension via: '' @ m) p)
         | None \<Rightarrow>
        (if js_truthy (ignoreFilesByDefault (opts p)) \<and> ignoreFilesByDefault (opts p) = JBool True
         then (False, logMsg fn ''   => ignore file by default'' p)
         else (True, logMsg fn ''   => allow file by default'' p)))))))"

definition doWeProcessDir :: "fsparser \<Rightarrow> string \<Rightarrow> string \<Rightarrow> bool \<times> fsparser" where
  "doWeProcessDir p0 filePath entry =
     (let rel = rel_path p0 filePath;
          fn = ''FsParser:_doWeProcessDir'';
          p = logMsg fn (''Processing directory: '' @ rel) p0
      in case rule_exec p AllowPaths rel of
           Some m \<Rightarrow> (True, logMsg fn (''   => allow path via: '' @ m) p)
         | None \<Rightarrow>
        (case rule_exec p IgnorePaths rel of
           Some m \<Rightarrow> (False, logMsg fn (''   => ignore path via: '' @ m) p)
         | None \<Rightarrow>
        (case rule_exec p IgnoreDirs entry of
           Some m \<Rightarrow> (False, logMsg fn (''   => ignore dir via: '' @ m) p)
         | None \<Rightarrow>
        (if js_truthy (ignorePathsByDefault (opts p)) \<and> ignorePathsByDefault (opts p) = JBool True
         then (False, logMsg fn ''   => ignore dir by default'' p)
         else (True, logMsg fn ''   => allow dir by default'' p)))))"

text \<open>
  \<^verbatim>\<open>freeformCheckFile\<close>. \<open>sp\<close> is the array of the path's segments; two \<^verbatim>\<open>pop\<close>s
  take the file name and then the parent's name off it (\<^verbatim>\<open>undefined\<close> from an empty
  array), and the array itself is handed to \<^verbatim>\<open>path.join\<close>. \<^verbatim>\<open>exec\<close> turns its
  argument into a string.
\<close>

definition array_pop :: "string list \<Rightarrow> jsprim \<times> string list" where
  "array_pop xs = (if xs = [] then (JUndefined, []) else (JStr (last xs), butlast xs))"

definition freeformCheckFile :: "fsparser \<Rightarrow> string \<Rightarrow> (error + bool) \<times> fsparser" where
  "freeformCheckFile p file =
     (let sp0 = js_split (CHR ''/'') file;
          sp1 = snd (array_pop sp0);
          (entry, sp) = array_pop sp1
      in case path_join [Arr (map JStr sp), Scalar entry] of
           Inl e \<Rightarrow> (Inl e, p)
         | Inr dirPath \<Rightarrow>
             (case doWeProcessDir p dirPath (js_to_string entry) of
                (False, p1) \<Rightarrow> (Inr False, p1)
              | (True, p1) \<Rightarrow>
                  (case doWeProcessFile p1 file of
                     (False, p2) \<Rightarrow> (Inr False, p2)
                   | (True, p2) \<Rightarrow> (Inr True, p2))))"

section \<open>The traversal\<close>

text \<open>
  What the \<^verbatim>\<open>fs\<close> calls find at a path. \<open>Directory es\<close>: \<^verbatim>\<open>statSync\<close> reports a
  directory and \<^verbatim>\<open>readdirSync\<close> lists the names of \<open>es\<close> in order. \<open>File\<close>: a regular
  file. \<open>Other\<close>: \<^verbatim>\<open>statSync\<close> succeeds with neither kind. \<open>StatFails e\<close>: the entry is
  listed but \<^verbatim>\<open>statSync\<close> throws (vanished, no permission). \<open>Unlistable e\<close>: a
  directory whose \<^verbatim>\<open>readdirSync\<close> throws. The tree is finite (no cycle of links).
\<close>

datatype fsnode =
  File | Other | StatFails fs_errno | Unlistable fs_errno
  | Directory "(string \<times> fsnode) list"

text \<open>
  \<^verbatim>\<open>_parseDir\<close> runs up to its only \<^verbatim>\<open>await\<close> without a break, because every
  \<^verbatim>\<open>fs\<close> call in it is synchronous and the callbacks of \<^verbatim>\<open>entries.map\<close> contain no
  \<^verbatim>\<open>await\<close>: each callback, and the nested \<^verbatim>\<open>_parseDir\<close> call it makes, has done all
  its work on the parser when it returns its promise. The first component of the result
  is how that promise settles: \<open>None\<close> fulfilled, \<open>Some e\<close> rejected with \<open>e\<close>.
  \<open>parseEntry\<close> is one callback. The promise of the nested call is dropped, as in the
  source, so its rejection reaches nobody. \<^verbatim>\<open>Promise.all\<close> rejects with the rejection
  of the first rejected callback in the order of the entries.
\<close>

fun parseDir :: "fsparser \<Rightarrow> string \<Rightarrow> fsnode \<Rightarrow> error option \<times> fsparser"
and parseEntries :: "fsparser \<Rightarrow> string \<Rightarrow> (string \<times> fsnode) list \<Rightarrow> error option \<times> fsparser"
and parseEntry :: "fsparser \<Rightarrow> string \<Rightarrow> string \<Rightarrow> fsnode \<Rightarrow> error option \<times> fsparser"
where
  "parseDir p dir (Directory es) = parseEntries p dir es"
| "parseDir p dir File = (Some (FsError ENOTDIR), p)"
| "parseDir p dir Other = (Some (FsError ENOTDIR), p)"
| "parseDir p dir (StatFails e) = (Some (FsError e), p)"
| "parseDir p dir (Unlistable e) = (Some (FsError e), p)"
| "parseEntries p dir [] = (None, p)"
| "parseEntries p dir ((entry, n) # es) =
     (case parseEntry p dir entry n of
        (r1, p1) \<Rightarrow>
          (case parseEntries p1 dir es of
             (r2, p2) \<Rightarrow> ((case r1 of Some e \<Rightarrow> Some e | None \<Rightarrow> r2), p2)))"
| "parseEntry p dir entry n =
     (case path_join [Scalar (JStr dir), Scalar (JStr entry)] of
        Inl e \<Rightarrow> (Some e, p)
      | Inr filePath \<Rightarrow>
          (case n of
             StatFails e \<Rightarrow> (Some (FsError e), p)
           | File \<Rightarrow>
               (case doWeProcessFile p filePath of
                  (True, p1) \<Rightarrow> (None, p1\<lparr>results := results p1 @ [filePath]\<rparr>)
                | (False, p1) \<Rightarrow> (None, p1))
           | Other \<Rightarrow> (None, p)
           | _ \<Rightarrow>
               (case doWeProcessDir p filePath entry of
                  (True, p1) \<Rightarrow> (None, snd (parseDir p1 filePath n))
                | (False, p1) \<Rightarrow> (None, p1))))"

text \<open>
  \<^verbatim>\<open>parse\<close> awaits the top-level \<^verbatim>\<open>_parseDir\<close>: its rejection is the rejection of
  \<^verbatim>\<open>parse\<close>, otherwise the collection is returned. \<open>root\<close> is what the file system
  holds at \<open>startPath\<close>.
\<close>

definition parse :: "fsparser \<Rightarrow> fsnode \<Rightarrow> (error + string list) \<times> fsparser" where
  "parse p0 root =
     (let p = p0\<lparr>results := []\<rparr>
      in case parseDir p (startPath p) root of
           (Some e, p1) \<Rightarrow> (Inl e, p1)
         | (None, p1) \<Rightarrow> (Inr (results p1), p1))"

section \<open>Notions used to state the properties\<close>

text \<open>A category matches a text: it has a matcher and the matcher matches.\<close>

definition category_matches :: "fsparser \<Rightarrow> category \<Rightarrow> string \<Rightarrow> bool" where
  "category_matches p item s = (rule_exec p item s \<noteq> None)"

text \<open>No rule category decides the file, or the directory: the default branch is reached.\<close>

definition file_reaches_default :: "fsparser \<Rightarrow> string \<Rightarrow> bool" where
  "file_reaches_default p filePath =
     (regex p OnlyFiles = None
      \<and> \<not> category_matches p IgnoreFilesFirst (path_basename filePath)
      \<and> \<not> category_matches p AllowFiles (path_basename filePath)
      \<and> \<not> category_matches p IgnoreFiles (path_basename filePath)
      \<and> \<not> category_matches p IgnoreExts (path_extname filePath))"

definition dir_reaches_default :: "fsparser \<Rightarrow> string \<Rightarrow> string \<Rightarrow> bool" where
  "dir_reaches_default p filePath entry =
     (\<not> category_matches p AllowPaths (rel_path p filePath)
      \<and> \<not> category_matches p IgnorePaths (rel_path p filePath)
      \<and> \<not> category_matches p IgnoreDirs entry)"

text \<open>
  The normalisation of a fragment by category, in the spec's words: an extension
  fragment begins with a dot, a filename fragment loses a leading separator, a path
  fragment begins with the separator.
\<close>

definition ext_fragment :: "string \<Rightarrow> string" where
  "ext_fragment f = (if take 1 f = ''.'' then f else ''.'' @ f)"

definition file_fragment :: "string \<Rightarrow> string" where
  "file_fragment f = (if take 1 f = path_sep then drop 1 f else f)"

definition path_fragment :: "string \<Rightarrow> string" where
  "path_fragment f = (if take 1 f = path_sep then f else path_sep @ f)"

fun normalize_fragment :: "category \<Rightarrow> string \<Rightarrow> string" where
  "normalize_fragment AllowPaths f = path_fragment f"
| "normalize_fragment IgnorePaths f = path_fragment f"
| "normalize_fragment IgnoreExts f = ext_fragment f"
| "normalize_fragment _ f = file_fragment f"

text \<open>
  How the sanitizers accumulate the pattern text: a separator bar goes before a
  fragment only when the text so far is not empty.
\<close>

definition append_alternative :: "string \<Rightarrow> string \<Rightarrow> string" where
  "append_alternative ap e = (if ap \<noteq> [] then ap @ ''|'' else ap) @ e"

definition join_alternatives :: "string list \<Rightarrow> string" where
  "join_alternatives es = foldl append_alternative [] es"

text \<open>\<open>s\<close> begins with \<open>f\<close>, letter case aside.\<close>

definition begins_with_ci :: "string \<Rightarrow> string \<Rightarrow> bool" where
  "begins_with_ci f s =
     (length f \<le> length s \<and> map canonicalize (take (length f) s) = map canonicalize f)"

text \<open>The text fragments of an option: the elements of a list, or the one bare text.\<close>

definition text_fragments :: "jsval \<Rightarrow> string list \<Rightarrow> bool" where
  "text_fragments v fs =
     (v = Arr (map JStr fs) \<or> (\<exists>f. f \<noteq> [] \<and> v = Scalar (JStr f) \<and> fs = [f])
      \<or> (v = Scalar JUndefined \<and> fs = []))"

text \<open>The sanitizer that the loops of \<^verbatim>\<open>_configureRegex\<close> apply to each category.\<close>

fun sanitizer_of :: "category \<Rightarrow> jsprim list \<Rightarrow> error + string" where
  "sanitizer_of AllowPaths = sanitizePathRegex"
| "sanitizer_of IgnorePaths = sanitizePathRegex"
| "sanitizer_of IgnoreExts = sanitizeExtRegex"
| "sanitizer_of _ = sanitizeFileRegex"

text \<open>What one pass of the loop body leaves in the matcher of its category.\<close>

definition compiled :: "(jsprim list \<Rightarrow> error + string) \<Rightarrow> jsval \<Rightarrow> regexp option \<Rightarrow> regexp option" where
  "compiled san v old =
     (if val_truthy v then
        (case san (makeArray v) of
           Inr ap \<Rightarrow> if ap \<noteq> [] then Some (RegExp (''^('' @ ap @ '')'') ''i'') else old
         | Inl e \<Rightarrow> old)
      else old)"

text \<open>The matcher a category ends up with when a parser is constructed from options.\<close>

definition compiled_matcher :: "options \<Rightarrow> category \<Rightarrow> error + regexp option" where
  "compiled_matcher os item =
     (case FsParser_new ''/root'' ''/root'' os of Inl e \<Rightarrow> Inl e | Inr p \<Rightarrow> Inr (regex p item))"

definition with_rule :: "category \<Rightarrow> jsval \<Rightarrow> options" where
  "with_rule item v = no_options\<lparr>rules := (rules no_options)(item := v)\<rparr>"

subsection \<open>Notions for the traversal\<close>

definition file_allowed :: "fsparser \<Rightarrow> string \<Rightarrow> bool" where
  "file_allowed p filePath = fst (doWeProcessFile p filePath)"

definition dir_allowed :: "fsparser \<Rightarrow> string \<Rightarrow> string \<Rightarrow> bool" where
  "dir_allowed p filePath entry = fst (doWeProcessDir p filePath entry)"

text \<open>Two parser states with the same configuration; they differ in log and results.\<close>

definition same_config :: "fsparser \<Rightarrow> fsparser \<Rightarrow> bool" where
  "same_config q p = (regex q = regex p \<and> opts q = opts p \<and> absPath q = absPath p \<and> startPath q = startPath p)"

text \<open>\<^verbatim>\<open>path.join(dir, entry)\<close> of two strings, which does not throw.\<close>

definition path_join2 :: "string \<Rightarrow> string \<Rightarrow> string" where
  "path_join2 dir entry =
     (case path_join [Scalar (JStr dir), Scalar (JStr entry)] of Inl e \<Rightarrow> [] | Inr s \<Rightarrow> s)"

text \<open>
  The entries reachable from a root directory \<open>t\<close> at path \<open>dir\<close> through directories
  that pass the Directory decision \<open>allow\<close>: \<open>reachable allow dir t filePath entry n\<close>
  says that the entry named \<open>entry\<close>, holding \<open>n\<close>, is reached at path \<open>filePath\<close>.
\<close>

inductive reachable ::
    "(string \<Rightarrow> string \<Rightarrow> bool) \<Rightarrow> string \<Rightarrow> fsnode \<Rightarrow> string \<Rightarrow> string \<Rightarrow> fsnode \<Rightarrow> bool"
  for allow :: "string \<Rightarrow> string \<Rightarrow> bool" and dir :: string and t :: fsnode
where
  root_entry:
    "t = Directory es \<Longrightarrow> (entry, n) \<in> set es
     \<Longrightarrow> reachable allow dir t (path_join2 dir entry) entry n"
| descend:
    "reachable allow dir t subPath subEntry (Directory es) \<Longrightarrow> allow subPath subEntry
     \<Longrightarrow> (entry, n) \<in> set es
     \<Longrightarrow> reachable allow dir t (path_join2 subPath entry) entry n"

text \<open>The files the claim speaks of: reachable, and passing the File decision.\<close>

definition accepted_files :: "fsparser \<Rightarrow> string \<Rightarrow> fsnode \<Rightarrow> string set" where
  "accepted_files p dir t =
     {filePath. \<exists>entry. reachable (dir_allowed p) dir t filePath entry File
                  \<and> file_allowed p filePath}"

text \<open>
  The first error of the root: the root cannot be listed, or \<^verbatim>\<open>statSync\<close> fails on
  one of its own entries (the first such in listing order).
\<close>

fun first_stat_failure :: "(string \<times> fsnode) list \<Rightarrow> error option" where
  "first_stat_failure [] = None"
| "first_stat_failure ((entry, StatFails e) # es) = Some (FsError e)"
| "first_stat_failure (_ # es) = first_stat_failure es"

fun root_failure :: "fsnode \<Rightarrow> error option" where
  "root_failure (Directory es) = first_stat_failure es"
| "root_failure File = Some (FsError ENOTDIR)"
| "root_failure Other = Some (FsError ENOTDIR)"
| "root_failure (StatFails e) = Some (FsError e)"
| "root_failure (Unlistable e) = Some (FsError e)"

text \<open>Every listing and every \<^verbatim>\<open>statSync\<close> in the tree succeeds.\<close>

fun readable :: "fsnode \<Rightarrow> bool" where
  "readable (Directory es) = (\<forall>x \<in> set es. readable (snd x))"
| "readable File = True"
| "readable Other = True"
| "readable (StatFails e) = False"
| "readable (Unlistable e) = False"

fun stat_ok :: "string \<times> fsnode \<Rightarrow> bool" where
  "stat_ok (entry, StatFails e) = False"
| "stat_ok _ = True"

text \<open>
  The tree with the contents of every directory that the Directory decision denies
  removed. \<open>dir\<close> is the path of the node.
\<close>

fun pruned :: "(string \<Rightarrow> string \<Rightarrow> bool) \<Rightarrow> string \<Rightarrow> fsnode \<Rightarrow> fsnode"
and pruned_entries ::
    "(string \<Rightarrow> string \<Rightarrow> bool) \<Rightarrow> string \<Rightarrow> (string \<times> fsnode) list \<Rightarrow> (string \<times> fsnode) list"
where
  "pruned allow dir (Directory es) = Directory (pruned_entries allow dir es)"
| "pruned allow dir File = File"
| "pruned allow dir Other = Other"
| "pruned allow dir (StatFails e) = StatFails e"
| "pruned allow dir (Unlistable e) = Unlistable e"
| "pruned_entries allow dir [] = []"
| "pruned_entries allow dir ((entry, n) # es) =
     (entry, if allow (path_join2 dir entry) entry then pruned allow (path_join2 dir entry) n
             else (case n of Directory _ \<Rightarrow> Directory [] | _ \<Rightarrow> n))
     # pruned_entries allow dir es"

subsection \<open>Concrete parsers and trees\<close>

text \<open>The tree of scenario 1, under \<^verbatim>\<open>/root\<close>.\<close>

definition scenario1_tree :: fsnode where
  "scenario1_tree =
     Directory [(''a.txt'', File), (''sub'', Directory [(''b.md'', File)]),
                (''node_modules'', Directory [(''c.js'', File)])]"

text \<open>A root in which one entry vanished between the listing and \<^verbatim>\<open>statSync\<close>.\<close>

definition vanished_tree :: fsnode where
  "vanished_tree = Directory [(''a.txt'', File), (''gone'', StatFails ENOENT), (''b.txt'', File)]"


text \<open>A parser with the given matchers and default policies, rooted at \<^verbatim>\<open>/root\<close>.\<close>

definition parser_with :: "(category \<Rightarrow> regexp option) \<Rightarrow> jsprim \<Rightarrow> jsprim \<Rightarrow> fsparser" where
  "parser_with rx fd pd =
     \<lparr>startPath = ''/root'', absPath = ''/root'',
      opts = no_options\<lparr>ignoreFilesByDefault := fd, ignorePathsByDefault := pd\<rparr>,
      regex = rx, log = [], results = []\<rparr>"

text \<open>Scenario 1 of the spec: \<^verbatim>\<open>{ignoreDirs: ["node_modules"]}\<close>.\<close>

definition scenario1_opts :: options where
  "scenario1_opts = no_options\<lparr>rules := (rules no_options)(IgnoreDirs := Arr [JStr ''node_modules''])\<rparr>"

definition scenario1_parser :: fsparser where
  "scenario1_parser =
     \<lparr>startPath = ''/root'', absPath = ''/root'', opts = scenario1_opts,
      regex = (\<lambda>_. None)(IgnoreDirs := Some (RegExp ''^(node_modules)'' ''i'')),
      log = [], results = []\<rparr>"

text \<open>\<^verbatim>\<open>{allowPaths: ["docs"], allowFiles: ["readme"]}\<close> and the parser constructed from it.\<close>

definition docs_opts :: options where
  "docs_opts = no_options\<lparr>rules := (rules no_options)(AllowPaths := Arr [JStr ''docs''],
                                                        AllowFiles := Arr [JStr ''readme''])\<rparr>"

definition docs_parser :: fsparser where
  "docs_parser =
     \<lparr>startPath = ''/root'', absPath = ''/root'', opts = docs_opts,
      regex = (\<lambda>_. None)(AllowPaths := Some (RegExp (''^('' @ [backslash] @ ''/docs)'') ''i''),
                             AllowFiles := Some (RegExp ''^(readme)'' ''i'')),
      log = [], results = []\<rparr>"

text \<open>Scenario 2: \<^verbatim>\<open>{ignoreFilesByDefault: true, allowFiles: ["README"]}\<close>, with
  \<^verbatim>\<open>ignoreFilesFirst: ["readme.bak"]\<close> and \<^verbatim>\<open>ignoreExts: [".txt"]\<close> added.\<close>

definition scenario2_parser :: fsparser where
  "scenario2_parser =
     parser_with ((\<lambda>_. None)(AllowFiles := Some (RegExp ''^(README)'' ''i''),
                               IgnoreFilesFirst := Some (RegExp (''^(readme'' @ [backslash] @ ''.bak)'') ''i''),
                               IgnoreExts := Some (RegExp (''^('' @ [backslash] @ ''.txt)'') ''i'')))
       (JBool True) JUndefined"

text \<open>\<^verbatim>\<open>{allowPaths: ["vendor/keep"], ignorePaths: ["vendor"], ignoreDirs: ["node_modules"],
  ignorePathsByDefault: true}\<close>.\<close>

definition scenario3_parser :: fsparser where
  "scenario3_parser =
     parser_with ((\<lambda>_. None)(AllowPaths := Some (RegExp (''^('' @ [backslash] @ ''/vendor'' @ [backslash] @ ''/keep)'') ''i''),
                               IgnorePaths := Some (RegExp (''^('' @ [backslash] @ ''/vendor)'') ''i''),
                               IgnoreDirs := Some (RegExp ''^(node_modules)'' ''i'')))
       JUndefined (JBool True)"

text \<open>Default policies that are truthy but not the boolean \<^verbatim>\<open>true\<close>.\<close>

definition loose_defaults_parser :: fsparser where
  "loose_defaults_parser = parser_with (\<lambda>_. None) (JStr ''true'') (JNum 1)"

section \<open>Properties of the pattern compiler\<close>

lemma regexEscape_text [simp]: "regexEscape (JStr t) = Inr (escape_text t)"
  by (simp add: regexEscape_def)

lemma sanitizeExt_step_text:
  "sanitizeExt_step ap (JStr f) = Inr (append_alternative ap (escape_text (ext_fragment f)))"
  by (cases f) (simp_all add: sanitizeExt_step_def js_index0_def js_to_string_def
      append_alternative_def ext_fragment_def Let_def)

lemma sanitizeFile_step_text:
  "sanitizeFile_step ap (JStr f) = Inr (append_alternative ap (escape_text (file_fragment f)))"
  by (cases f) (simp_all add: sanitizeFile_step_def js_index0_def js_to_string_def
      append_alternative_def file_fragment_def path_sep_def Let_def)

lemma sanitizePath_step_text:
  "sanitizePath_step ap (JStr f) = Inr (append_alternative ap (escape_text (path_fragment f)))"
  by (cases f) (simp_all add: sanitizePath_step_def js_index0_def js_to_string_def
      append_alternative_def path_fragment_def path_sep_def Let_def)

lemma forEach_ap_text:
  assumes "\<And>ap f. step ap (JStr f) = Inr (append_alternative ap (escape_text (norm f)))"
  shows "forEach_ap step ap (map JStr fs)
         = Inr (foldl append_alternative ap (map (\<lambda>f. escape_text (norm f)) fs))"
  by (induction fs arbitrary: ap) (simp_all add: assms)

lemma escape_text_Nil [simp]: "escape_text [] = []"
  by (simp add: escape_text_def)

lemma escape_text_Cons: "escape_text (c # t) = escape_char c @ escape_text t"
  by (simp add: escape_text_def)

lemma escape_text_empty_iff [simp]: "escape_text t = [] \<longleftrightarrow> t = []"
  by (cases t) (simp_all add: escape_text_Cons escape_char_def)

lemma parse_alts_escape_char:
  "parse_alts cur (escape_char c @ rest) = parse_alts (cur @ [c]) rest"
proof (cases "c \<in> set escape_chars")
  case True
  then show ?thesis by (simp add: escape_char_def)
next
  case False
  then have "c \<noteq> backslash" "c \<noteq> CHR ''|''" "c \<noteq> CHR '')''" "c \<notin> set ''^$*+?.([]{}''"
    by (auto simp add: escape_chars_def)
  with False show ?thesis by (simp add: escape_char_def)
qed

lemma parse_alts_escape_text:
  "parse_alts cur (escape_text t @ rest) = parse_alts (cur @ t) rest"
  by (induction t arbitrary: cur) (simp_all add: escape_text_Cons parse_alts_escape_char)

lemma parse_alts_bar: "parse_alts cur (CHR ''|'' # rest) = map_option ((#) cur) (parse_alts [] rest)"
  by (simp add: backslash_def)

lemma parse_alts_close: "parse_alts cur '')'' = Some [cur]"
  by (simp add: backslash_def)

lemma parse_alts_tail:
  "parse_alts cur (concat (map (\<lambda>e. CHR ''|'' # escape_text e) ns) @ '')'') = Some (cur # ns)"
proof (induction ns arbitrary: cur)
  case Nil
  show ?case by (simp add: parse_alts_close del: parse_alts.simps)
next
  case (Cons n ns)
  have "parse_alts cur (concat (map (\<lambda>e. CHR ''|'' # escape_text e) (n # ns)) @ '')'')
        = map_option ((#) cur) (parse_alts [] (escape_text n @ concat (map (\<lambda>e. CHR ''|'' # escape_text e) ns) @ '')''))"
    by (simp add: parse_alts_bar del: parse_alts.simps)
  also have "\<dots> = map_option ((#) cur) (parse_alts n (concat (map (\<lambda>e. CHR ''|'' # escape_text e) ns) @ '')''))"
    by (simp add: parse_alts_escape_text del: parse_alts.simps)
  also have "\<dots> = Some (cur # n # ns)"
    by (simp only: Cons.IH option.map)
  finally show ?case .
qed

lemma foldl_append_alternative_nonempty:
  "ap \<noteq> [] \<Longrightarrow> foldl append_alternative ap es = ap @ concat (map (\<lambda>e. ''|'' @ e) es)"
  by (induction es arbitrary: ap) (simp_all add: append_alternative_def)

lemma join_alternatives_dropWhile:
  "join_alternatives es = join_alternatives (dropWhile (\<lambda>e. e = []) es)"
  unfolding join_alternatives_def
  by (induction es) (simp_all add: append_alternative_def)

lemma join_alternatives_Cons:
  "e \<noteq> [] \<Longrightarrow> join_alternatives (e # es) = e @ concat (map (\<lambda>e. ''|'' @ e) es)"
  by (simp add: join_alternatives_def append_alternative_def foldl_append_alternative_nonempty)

lemma js_join_Cons: "js_join sep (e # es) = e @ concat (map (\<lambda>e. sep @ e) es)"
  by (induction es arbitrary: e) simp_all

lemma join_alternatives_js_join:
  "join_alternatives es = js_join ''|'' (dropWhile (\<lambda>e. e = []) es)"
proof (cases "dropWhile (\<lambda>e. e = []) es")
  case Nil
  have "join_alternatives es = join_alternatives []"
    using join_alternatives_dropWhile [of es] unfolding Nil .
  then show ?thesis unfolding Nil by (simp add: join_alternatives_def)
next
  case (Cons e es')
  have "\<not> (\<lambda>e. e = []) (hd (dropWhile (\<lambda>e. e = []) es))"
    by (rule hd_dropWhile) (simp add: Cons)
  then have "e \<noteq> []" by (simp add: Cons)
  have "join_alternatives es = join_alternatives (e # es')"
    using join_alternatives_dropWhile [of es] unfolding Cons .
  with \<open>e \<noteq> []\<close> show ?thesis
    unfolding Cons by (simp add: join_alternatives_Cons js_join_Cons del: js_join.simps)
qed

lemma first_match_iff:
  "first_match ''i'' ns s \<noteq> None \<longleftrightarrow> (\<exists>f\<in>set ns. begins_with_ci f s)"
  by (induction ns) (auto simp add: match_alt_def fold_case_def begins_with_ci_def split: option.splits)

lemma sanitizer_of_text:
  "sanitizer_of item (map JStr fs)
   = Inr (join_alternatives (map (\<lambda>f. escape_text (normalize_fragment item f)) fs))"
  by (cases item)
    (simp_all add: sanitizePathRegex_def sanitizeFileRegex_def sanitizeExtRegex_def
      join_alternatives_def
      forEach_ap_text [where norm = path_fragment, OF sanitizePath_step_text]
      forEach_ap_text [where norm = file_fragment, OF sanitizeFile_step_text]
      forEach_ap_text [where norm = ext_fragment, OF sanitizeExt_step_text])

lemma configure_item_regex:
  assumes "configure_item san q it = Inr q'"
  shows "regex q' = (regex q)(it := compiled san (rules (opts q) it) (regex q it))"
    and "j \<noteq> it \<Longrightarrow> rules (opts q') j = rules (opts q) j"
  using assms
  by (auto simp add: configure_item_def compiled_def Let_def split: if_splits sum.splits)

lemma for_items_regex:
  "for_items (configure_item san) q items = Inr q' \<Longrightarrow> distinct items \<Longrightarrow>
     regex q' j = (if j \<in> set items then compiled san (rules (opts q) j) (regex q j) else regex q j)
     \<and> (j \<notin> set items \<longrightarrow> rules (opts q') j = rules (opts q) j)"
proof (induction items arbitrary: q)
  case Nil
  then show ?case by simp
next
  case (Cons it items)
  from Cons.prems(1) obtain q1 where q1: "configure_item san q it = Inr q1"
    and rest: "for_items (configure_item san) q1 items = Inr q'"
    by (auto split: sum.splits)
  from Cons.prems(2) have d: "distinct items" "it \<notin> set items" by simp_all
  note ih = Cons.IH [OF rest d(1)]
  note ci = configure_item_regex [OF q1]
  show ?case
  proof (cases "j = it")
    case True
    with ih ci(1) d(2) show ?thesis by simp
  next
    case False
    with ih ci(1) ci(2) [of j] show ?thesis by simp
  qed
qed

lemma configureRegex_regex:
  assumes "configureRegex q = Inr p"
  shows "regex p item = compiled (sanitizer_of item) (rules (opts q) item) (regex q item)"
proof -
  from assms obtain p1 p2 where
    s1: "for_items (configure_item sanitizePathRegex) q [AllowPaths, IgnorePaths] = Inr p1" and
    s2: "for_items (configure_item sanitizeFileRegex) p1
           [OnlyFiles, AllowFiles, IgnoreFiles, IgnoreFilesFirst, IgnoreDirs] = Inr p2" and
    s3: "configure_item sanitizeExtRegex p2 IgnoreExts = Inr p"
    by (auto simp add: configureRegex_def split: sum.splits)
  have d1: "distinct [AllowPaths, IgnorePaths]"
    and d2: "distinct [OnlyFiles, AllowFiles, IgnoreFiles, IgnoreFilesFirst, IgnoreDirs]"
    by simp_all
  note r1 = for_items_regex [OF s1 d1, of item]
  note r2 = for_items_regex [OF s2 d2, of item]
  note r3 = configure_item_regex [OF s3]
  show ?thesis
    using r1 r2 r3(1) r3(2) [of item]
    by (cases item) simp_all
qed

lemma dropWhile_map_escape:
  "dropWhile (\<lambda>e. e = []) (map escape_text ns) = map escape_text (dropWhile (\<lambda>f. f = []) ns)"
  by (induction ns) simp_all

lemma parse_pattern_joined:
  assumes "ns \<noteq> []"
  shows "parse_pattern (''^('' @ js_join ''|'' (map escape_text ns) @ '')'') = Some ns"
proof -
  from assms obtain n ns' where ns: "ns = n # ns'" by (cases ns) auto
  have "parse_alts [] (escape_text n @ concat (map (\<lambda>e. CHR ''|'' # escape_text e) ns') @ '')'')
        = Some (n # ns')"
    by (simp only: parse_alts_escape_text append_Nil parse_alts_tail)
  then show ?thesis
    by (simp add: parse_pattern_def ns js_join_Cons comp_def del: js_join.simps parse_alts.simps)
qed

lemma regexp_exec_joined:
  "ns \<noteq> [] \<Longrightarrow>
     regexp_exec (RegExp (''^('' @ js_join ''|'' (map escape_text ns) @ '')'') ''i'') s
     = first_match ''i'' ns s"
  by (simp only: regexp_exec_def regexp.sel parse_pattern_joined option.case simp_thms)

lemma compiled_text:
  fixes item :: category
  assumes "text_fragments v fs"
  defines "ns \<equiv> dropWhile (\<lambda>f. f = []) (map (normalize_fragment item) fs)"
  shows "compiled (sanitizer_of item) v None
         = (if ns = [] then None
            else Some (RegExp (''^('' @ js_join ''|'' (map escape_text ns) @ '')'') ''i''))"
proof -
  have join: "join_alternatives (map (\<lambda>f. escape_text (normalize_fragment item f)) fs)
      = js_join ''|'' (map escape_text ns)"
    by (simp add: join_alternatives_js_join ns_def dropWhile_map_escape [symmetric] comp_def)
  have empty: "js_join ''|'' (map escape_text ns) = [] \<longleftrightarrow> ns = []"
  proof (cases ns)
    case Nil then show ?thesis by simp
  next
    case (Cons n ns')
    have "\<not> (\<lambda>f. f = []) (hd (dropWhile (\<lambda>f. f = []) (map (normalize_fragment item) fs)))"
      by (rule hd_dropWhile) (simp add: Cons [unfolded ns_def])
    then have "n \<noteq> []" using Cons by (simp add: ns_def)
    then show ?thesis by (simp add: Cons js_join_Cons del: js_join.simps)
  qed
  from assms(1) consider (arr) "v = Arr (map JStr fs)"
    | (one) f where "f \<noteq> []" "v = Scalar (JStr f)" "fs = [f]"
    | (none) "v = Scalar JUndefined" "fs = []"
    by (auto simp add: text_fragments_def)
  then show ?thesis
  proof cases
    case arr
    then show ?thesis
      by (simp add: compiled_def val_truthy_def makeArray_def sanitizer_of_text join empty)
  next
    case one
    then have "v = Scalar (JStr f)" "makeArray v = map JStr fs" "val_truthy v"
      by (simp_all add: makeArray_def val_truthy_def js_truthy_def)
    then show ?thesis
      by (simp add: compiled_def sanitizer_of_text join empty)
  next
    case none
    then show ?thesis
      by (simp add: compiled_def val_truthy_def js_truthy_def ns_def)
  qed
qed

lemma FsParser_new_regex:
  assumes "FsParser_new sp ap os = Inr p"
  shows "regex p item = compiled (sanitizer_of item) (rules os item) None"
  using configureRegex_regex [OF assms [unfolded FsParser_new_def], of item] by simp

text \<open>
  C4 (amended). For a category whose fragments are text, let \<open>ns\<close> be the normalised
  fragments from the first non-empty one on. If there is none (the list is empty, or
  every fragment is empty once normalised), no matcher is produced and the category
  never matches. Otherwise the matcher is \<^verbatim>\<open>^(\<close> + the escaped fragments \<open>ns\<close> joined
  by \<^verbatim>\<open>|\<close> + \<^verbatim>\<open>)\<close>, case-insensitive, and it matches exactly the texts that begin,
  letter case aside, with one of \<open>ns\<close>: a prefix match with no end anchor.
\<close>

theorem compiled_matcher_prefix:
  assumes "FsParser_new sp ap os = Inr p" and "text_fragments (rules os item) fs"
  shows "let ns = dropWhile (\<lambda>f. f = []) (map (normalize_fragment item) fs)
         in (ns = [] \<longrightarrow> regex p item = None \<and> (\<forall>s. \<not> category_matches p item s))
          \<and> (ns \<noteq> [] \<longrightarrow>
               regex p item = Some (RegExp (''^('' @ js_join ''|'' (map escape_text ns) @ '')'') ''i'')
               \<and> (\<forall>s. category_matches p item s \<longleftrightarrow> (\<exists>f\<in>set ns. begins_with_ci f s)))"
proof -
  define ns where "ns = dropWhile (\<lambda>f. f = []) (map (normalize_fragment item) fs)"
  have rx: "regex p item = (if ns = [] then None
      else Some (RegExp (''^('' @ js_join ''|'' (map escape_text ns) @ '')'') ''i''))"
    unfolding ns_def FsParser_new_regex [OF assms(1)] by (rule compiled_text [OF assms(2)])
  have none: "ns = [] \<Longrightarrow> \<not> category_matches p item s" for s
    by (simp add: category_matches_def rule_exec_def rx)
  have some: "ns \<noteq> [] \<Longrightarrow> category_matches p item s \<longleftrightarrow> (\<exists>f\<in>set ns. begins_with_ci f s)" for s
    by (simp only: category_matches_def rule_exec_def rx if_False option.case
        regexp_exec_joined first_match_iff simp_thms)
  show ?thesis
    unfolding Let_def ns_def [symmetric] using rx none some by simp
qed

lemma docs_parser_constructed:
  "FsParser_new ''/root'' ''/root'' docs_opts = Inr docs_parser"
  by (simp add: FsParser_new_def configureRegex_def configure_item_def docs_opts_def
      docs_parser_def no_options_def val_truthy_def js_truthy_def makeArray_def
      sanitizeFileRegex_def sanitizeFile_step_def sanitizePathRegex_def sanitizePath_step_def
      js_index0_def regexEscape_def escape_text_def escape_char_def
      escape_chars_def backslash_def path_sep_def js_to_string_def fun_upd_twist)

theorem compiled_matcher_prefix_witness:
  "FsParser_new ''/root'' ''/root'' docs_opts = Inr docs_parser
   \<and> text_fragments (rules docs_opts AllowPaths) [''docs'']
   \<and> text_fragments (rules docs_opts AllowFiles) [''readme'']
   \<and> category_matches docs_parser AllowPaths ''/docs/readme.md''
   \<and> category_matches docs_parser AllowPaths ''/docsx/other.md''
   \<and> category_matches docs_parser AllowFiles ''README.md''
   \<and> \<not> category_matches docs_parser AllowFiles ''other.md''"
proof -
  have t1: "text_fragments (rules docs_opts AllowPaths) [''docs'']"
    and t2: "text_fragments (rules docs_opts AllowFiles) [''readme'']"
    by (simp_all add: text_fragments_def docs_opts_def no_options_def)
  have n1: "dropWhile (\<lambda>f. f = []) (map (normalize_fragment AllowPaths) [''docs'']) = [''/docs'']"
    and n2: "dropWhile (\<lambda>f. f = []) (map (normalize_fragment AllowFiles) [''readme'']) = [''readme'']"
    by code_simp+
  have b1: "begins_with_ci ''/docs'' ''/docs/readme.md''"
    and b2: "begins_with_ci ''/docs'' ''/docsx/other.md''"
    and b3: "begins_with_ci ''readme'' ''README.md''"
    and b4: "\<not> begins_with_ci ''readme'' ''other.md''"
    by code_simp+
  from compiled_matcher_prefix [OF docs_parser_constructed t1]
  have p: "\<forall>s. category_matches docs_parser AllowPaths s \<longleftrightarrow> begins_with_ci ''/docs'' s"
    unfolding n1 Let_def by simp
  from compiled_matcher_prefix [OF docs_parser_constructed t2]
  have f: "\<forall>s. category_matches docs_parser AllowFiles s \<longleftrightarrow> begins_with_ci ''readme'' s"
    unfolding n2 Let_def by simp
  from p f b1 b2 b3 b4 t1 t2 docs_parser_constructed show ?thesis by simp
qed

text \<open>
  C4 as stated fails: \<^verbatim>\<open>{onlyFiles: [""]}\<close> is a non-empty fragment list, yet no
  matcher is produced for it.
\<close>

theorem empty_fragment_no_matcher:
  "compiled_matcher (with_rule OnlyFiles (Arr [JStr ''''])) OnlyFiles = Inr None"
  by code_simp

text \<open>
  C8. A number among the fragments of \<^verbatim>\<open>ignoreExts\<close> raises no error at construction:
  the sanitizer concatenates it to the dot before \<^verbatim>\<open>regexEscape\<close> sees it, and the
  parser is built with the matcher \<^verbatim>\<open>^(\.5)\<close>. The same fragment under
  \<^verbatim>\<open>ignoreFiles\<close> reaches \<^verbatim>\<open>regexEscape\<close> as a number and is rejected.
\<close>

theorem number_fragment_accepted:
  "compiled_matcher (with_rule IgnoreExts (Arr [JNum 5])) IgnoreExts
   = Inr (Some (RegExp (''^('' @ [backslash] @ ''.5)'') ''i''))"
  by code_simp

lemma number_fragment_rejected:
  "compiled_matcher (with_rule IgnoreFiles (Arr [JNum 5])) IgnoreFiles
   = Inl (GAError ''regexEscape requires a string, we got a number.'')"
  by code_simp

lemma sanitizers_accept_text:
  "\<exists>ap. sanitizePathRegex (map JStr fs) = Inr ap"
  "\<exists>ap. sanitizeFileRegex (map JStr fs) = Inr ap"
  "\<exists>ap. sanitizeExtRegex (map JStr fs) = Inr ap"
  using sanitizer_of_text [of AllowPaths fs] sanitizer_of_text [of AllowFiles fs]
    sanitizer_of_text [of IgnoreExts fs]
  by simp_all

lemma configure_item_text:
  assumes "text_fragments (rules (opts q) it) fs" and "\<And>gs. \<exists>ap. san (map JStr gs) = Inr ap"
  shows "\<exists>q'. configure_item san q it = Inr q'"
proof -
  from assms(1) consider (arr) "rules (opts q) it = Arr (map JStr fs)"
    | (one) f where "rules (opts q) it = Scalar (JStr f)" "fs = [f]"
    | (none) "rules (opts q) it = Scalar JUndefined"
    by (auto simp add: text_fragments_def)
  then show ?thesis
  proof cases
    case arr
    from assms(2) [of fs] obtain ap where "san (map JStr fs) = Inr ap" ..
    with arr show ?thesis by (simp add: configure_item_def makeArray_def Let_def)
  next
    case one
    from assms(2) [of "[f]"] obtain ap where "san [JStr f] = Inr ap" by auto
    with one show ?thesis by (simp add: configure_item_def makeArray_def Let_def)
  next
    case none
    then show ?thesis by (simp add: configure_item_def val_truthy_def js_truthy_def)
  qed
qed

lemma configure_item_rules:
  "configure_item san q it = Inr q' \<Longrightarrow> text_fragments (rules (opts q) j) fs
   \<Longrightarrow> j \<noteq> it \<Longrightarrow> text_fragments (rules (opts q') j) fs"
  using configure_item_regex(2) [of san q it q' j] by simp

lemma for_items_text:
  assumes "\<And>gs. \<exists>ap. san (map JStr gs) = Inr ap"
  shows "\<forall>j \<in> set items. \<exists>fs. text_fragments (rules (opts q) j) fs \<Longrightarrow> distinct items
     \<Longrightarrow> \<exists>q'. for_items (configure_item san) q items = Inr q'"
proof (induction items arbitrary: q)
  case Nil
  show ?case by simp
next
  case (Cons it items)
  from Cons.prems(1) obtain fs where "text_fragments (rules (opts q) it) fs" by auto
  then obtain q1 where q1: "configure_item san q it = Inr q1"
    using configure_item_text [of q it fs san] assms by blast
  have "\<forall>j \<in> set items. \<exists>fs. text_fragments (rules (opts q1) j) fs"
  proof
    fix j assume j: "j \<in> set items"
    with Cons.prems(2) have "j \<noteq> it" by auto
    moreover from j Cons.prems(1) obtain fs where "text_fragments (rules (opts q) j) fs" by auto
    ultimately show "\<exists>fs. text_fragments (rules (opts q1) j) fs"
      using configure_item_rules [OF q1] by blast
  qed
  moreover from Cons.prems(2) have "distinct items" by simp
  ultimately obtain q' where "for_items (configure_item san) q1 items = Inr q'"
    using Cons.IH by blast
  with q1 show ?case by simp
qed

text \<open>When every fragment of every category is text, construction raises no error.\<close>

lemma text_options_compile:
  assumes "\<And>item. \<exists>fs. text_fragments (rules os item) fs"
  shows "\<exists>p. FsParser_new sp ap os = Inr p"
proof -
  let ?q = "\<lparr>startPath = sp, absPath = ap, opts = os, regex = (\<lambda>_. None), log = [], results = []\<rparr>"
  have all: "\<exists>fs. text_fragments (rules (opts ?q) j) fs" for j
    using assms by simp
  obtain p1 where s1: "for_items (configure_item sanitizePathRegex) ?q [AllowPaths, IgnorePaths] = Inr p1"
    using for_items_text [of sanitizePathRegex "[AllowPaths, IgnorePaths]" ?q] all sanitizers_accept_text(1)
    by auto
  have r1: "rules (opts p1) j = rules (opts ?q) j" if "j \<notin> set [AllowPaths, IgnorePaths]" for j
    using for_items_regex [OF s1, of j] that by simp
  obtain p2 where s2: "for_items (configure_item sanitizeFileRegex) p1
      [OnlyFiles, AllowFiles, IgnoreFiles, IgnoreFilesFirst, IgnoreDirs] = Inr p2"
    using for_items_text [of sanitizeFileRegex
        "[OnlyFiles, AllowFiles, IgnoreFiles, IgnoreFilesFirst, IgnoreDirs]" p1]
      all r1 sanitizers_accept_text(2)
    by auto
  have r2: "rules (opts p2) IgnoreExts = rules (opts ?q) IgnoreExts"
    using for_items_regex [OF s2, of IgnoreExts] r1 [of IgnoreExts] by simp
  obtain p where s3: "configure_item sanitizeExtRegex p2 IgnoreExts = Inr p"
    using configure_item_text [of p2 IgnoreExts _ sanitizeExtRegex] all [of IgnoreExts] r2
      sanitizers_accept_text(3)
    by auto
  from s1 s2 s3 show ?thesis
    by (simp add: FsParser_new_def configureRegex_def)
qed

text \<open>
  C5. Each text fragment is normalised by its category and then escaped: the sanitizer of
  a category returns the escaped normalised fragments, accumulated with bars, where an
  extension fragment is made to begin with a dot, a filename fragment loses a leading
  separator and a path fragment is made to begin with the separator; the escaped text,
  compiled, is read as the literal text again; and construction compiles each category
  with the sanitizer of that category.
\<close>

theorem fragments_normalized_then_escaped:
  "sanitizer_of item (map JStr fs)
     = Inr (join_alternatives (map (\<lambda>f. escape_text (normalize_fragment item f)) fs))
   \<and> parse_pattern (''^('' @ escape_text t @ '')'') = Some [t]
   \<and> (FsParser_new sp ap os = Inr p
        \<longrightarrow> regex p item = compiled (sanitizer_of item) (rules os item) None)"
proof -
  have "parse_pattern (''^('' @ js_join ''|'' (map escape_text [t]) @ '')'') = Some [t]"
    by (rule parse_pattern_joined) simp
  then show ?thesis
    by (simp add: sanitizer_of_text FsParser_new_regex)
qed

theorem fragments_normalized_then_escaped_witness:
  "FsParser_new ''/root'' ''/root'' docs_opts = Inr docs_parser
   \<and> sanitizeExtRegex [JStr ''txt'', JStr ''.md'']
       = Inr ([backslash] @ ''.txt|'' @ [backslash] @ ''.md'')
   \<and> sanitizeFileRegex [JStr ''/a.b'', JStr ''c''] = Inr (''a'' @ [backslash] @ ''.b|c'')
   \<and> sanitizePathRegex [JStr ''docs'', JStr ''/x'']
       = Inr ([backslash] @ ''/docs|'' @ [backslash] @ ''/x'')
   \<and> regex docs_parser AllowPaths = compiled sanitizePathRegex (Arr [JStr ''docs'']) None"
proof -
  note inst = fragments_normalized_then_escaped
  have e: "join_alternatives (map (\<lambda>f. escape_text (normalize_fragment IgnoreExts f)) [''txt'', ''.md''])
           = [backslash] @ ''.txt|'' @ [backslash] @ ''.md''"
    by code_simp
  have f: "join_alternatives (map (\<lambda>f. escape_text (normalize_fragment IgnoreFiles f)) [''/a.b'', ''c''])
           = ''a'' @ [backslash] @ ''.b|c''"
    by code_simp
  have p: "join_alternatives (map (\<lambda>f. escape_text (normalize_fragment AllowPaths f)) [''docs'', ''/x''])
           = [backslash] @ ''/docs|'' @ [backslash] @ ''/x''"
    by code_simp
  have r: "rules docs_opts AllowPaths = Arr [JStr ''docs'']"
    by (simp add: docs_opts_def no_options_def)
  from inst [of IgnoreExts "[''txt'', ''.md'']"]
  have 1: "sanitizeExtRegex [JStr ''txt'', JStr ''.md''] = Inr ([backslash] @ ''.txt|'' @ [backslash] @ ''.md'')"
    unfolding e by simp
  from inst [of IgnoreFiles "[''/a.b'', ''c'']"]
  have 2: "sanitizeFileRegex [JStr ''/a.b'', JStr ''c''] = Inr (''a'' @ [backslash] @ ''.b|c'')"
    unfolding f by simp
  from inst [of AllowPaths "[''docs'', ''/x'']"]
  have 3: "sanitizePathRegex [JStr ''docs'', JStr ''/x''] = Inr ([backslash] @ ''/docs|'' @ [backslash] @ ''/x'')"
    unfolding p by simp
  from inst [of AllowPaths _ _ "''/root''" "''/root''" docs_opts docs_parser] docs_parser_constructed
  have 4: "regex docs_parser AllowPaths = compiled sanitizePathRegex (Arr [JStr ''docs'']) None"
    unfolding r by simp
  from 1 2 3 4 docs_parser_constructed show ?thesis by simp
qed

section \<open>Properties of the decisions\<close>

lemma regex_logMsg [simp]: "regex (logMsg f m p) = regex p"
  and opts_logMsg [simp]: "opts (logMsg f m p) = opts p"
  and absPath_logMsg [simp]: "absPath (logMsg f m p) = absPath p"
  and startPath_logMsg [simp]: "startPath (logMsg f m p) = startPath p"
  and results_logMsg [simp]: "results (logMsg f m p) = results p"
  and log_logMsg [simp]: "log (logMsg f m p) = log p @ [(f, m)]"
  by (simp_all add: logMsg_def)

lemma rule_exec_logMsg [simp]: "rule_exec (logMsg f m p) item s = rule_exec p item s"
  by (simp add: rule_exec_def)

lemma default_test: "(js_truthy v \<and> v = JBool True) = (v = JBool True)"
  by (auto simp add: js_truthy_def)

lemma fst_doWeProcessFile:
  "fst (doWeProcessFile p filePath) =
     (if regex p OnlyFiles \<noteq> None then rule_exec p OnlyFiles (path_basename filePath) \<noteq> None
      else if rule_exec p IgnoreFilesFirst (path_basename filePath) \<noteq> None then False
      else if rule_exec p AllowFiles (path_basename filePath) \<noteq> None then True
      else if rule_exec p IgnoreFiles (path_basename filePath) \<noteq> None then False
      else if rule_exec p IgnoreExts (path_extname filePath) \<noteq> None then False
      else ignoreFilesByDefault (opts p) \<noteq> JBool True)"
proof -
  note distr = option.case_distrib [of fst] if_distrib [of fst]
  show ?thesis
    apply (simp only: doWeProcessFile_def Let_def distr fst_conv rule_exec_logMsg
        regex_logMsg opts_logMsg default_test)
    apply (cases "regex p OnlyFiles")
     apply (cases "rule_exec p IgnoreFilesFirst (path_basename filePath)";
        cases "rule_exec p AllowFiles (path_basename filePath)";
        cases "rule_exec p IgnoreFiles (path_basename filePath)";
        cases "rule_exec p IgnoreExts (path_extname filePath)"; simp)
    apply (simp add: rule_exec_def split: option.splits)
    done
qed

lemma fst_doWeProcessDir:
  "fst (doWeProcessDir p filePath entry) =
     (if rule_exec p AllowPaths (rel_path p filePath) \<noteq> None then True
      else if rule_exec p IgnorePaths (rel_path p filePath) \<noteq> None then False
      else if rule_exec p IgnoreDirs entry \<noteq> None then False
      else ignorePathsByDefault (opts p) \<noteq> JBool True)"
proof -
  note distr = option.case_distrib [of fst] if_distrib [of fst]
  show ?thesis
    apply (simp only: doWeProcessDir_def Let_def distr fst_conv rule_exec_logMsg
        regex_logMsg opts_logMsg default_test)
    apply (cases "rule_exec p AllowPaths (rel_path p filePath)";
        cases "rule_exec p IgnorePaths (rel_path p filePath)";
        cases "rule_exec p IgnoreDirs entry"; simp)
    done
qed

text \<open>A decision changes nothing of the parser but the log, which it extends.\<close>

lemma snd_doWeProcessFile: "\<exists>msgs. snd (doWeProcessFile p filePath) = p\<lparr>log := log p @ msgs\<rparr>"
proof -
  have step: "\<And>f m q. (\<exists>msgs. q = p\<lparr>log := log p @ msgs\<rparr>)
      \<Longrightarrow> \<exists>msgs. logMsg f m q = p\<lparr>log := log p @ msgs\<rparr>"
    by (auto simp add: logMsg_def)
  have base: "\<exists>msgs. p = p\<lparr>log := log p @ msgs\<rparr>"
    by (rule exI [of _ "[]"]) simp
  note distr = option.case_distrib [of snd] if_distrib [of snd]
  show ?thesis
    apply (simp only: doWeProcessFile_def Let_def distr snd_conv rule_exec_logMsg
        regex_logMsg opts_logMsg)
    apply (intro step base | simp only: split: option.split if_split | intro conjI impI allI)+
    done
qed

lemma snd_doWeProcessDir:
  "\<exists>msgs. snd (doWeProcessDir p filePath entry) = p\<lparr>log := log p @ msgs\<rparr>"
proof -
  have step: "\<And>f m q. (\<exists>msgs. q = p\<lparr>log := log p @ msgs\<rparr>)
      \<Longrightarrow> \<exists>msgs. logMsg f m q = p\<lparr>log := log p @ msgs\<rparr>"
    by (auto simp add: logMsg_def)
  have base: "\<exists>msgs. p = p\<lparr>log := log p @ msgs\<rparr>"
    by (rule exI [of _ "[]"]) simp
  note distr = option.case_distrib [of snd] if_distrib [of snd]
  show ?thesis
    apply (simp only: doWeProcessDir_def Let_def distr snd_conv rule_exec_logMsg
        regex_logMsg opts_logMsg)
    apply (intro step base | simp only: split: option.split if_split | intro conjI impI allI)+
    done
qed

text \<open>
  C2. The File decision follows the precedence of the six rules, the first applicable
  one deciding: with \<open>onlyFiles\<close> present the basename is allowed exactly when it
  matches \<open>onlyFiles\<close>; otherwise a match of \<open>ignoreFilesFirst\<close> denies, then a match of
  \<open>allowFiles\<close> allows, then a match of \<open>ignoreFiles\<close> denies, then a match of
  \<open>ignoreExts\<close> on the extension denies, and otherwise the file is denied exactly when
  \<open>ignoreFilesByDefault\<close> is the boolean \<open>true\<close>.
\<close>

theorem file_decision_precedence:
  "fst (doWeProcessFile p filePath) =
     (let base = path_basename filePath; ext = path_extname filePath
      in if regex p OnlyFiles \<noteq> None then category_matches p OnlyFiles base
         else if category_matches p IgnoreFilesFirst base then False
         else if category_matches p AllowFiles base then True
         else if category_matches p IgnoreFiles base then False
         else if category_matches p IgnoreExts ext then False
         else if ignoreFilesByDefault (opts p) = JBool True then False
         else True)"
  by (simp add: fst_doWeProcessFile category_matches_def Let_def)

theorem file_decision_precedence_witness:
  "fst (doWeProcessFile scenario2_parser ''/root/README.md'')
   \<and> \<not> fst (doWeProcessFile scenario2_parser ''/root/readme.bak'')
   \<and> \<not> fst (doWeProcessFile scenario2_parser ''/root/notes.txt'')
   \<and> \<not> fst (doWeProcessFile scenario2_parser ''/root/other.md'')"
proof -
  let ?rhs = "\<lambda>f. (let base = path_basename f; ext = path_extname f
      in if regex scenario2_parser OnlyFiles \<noteq> None then category_matches scenario2_parser OnlyFiles base
         else if category_matches scenario2_parser IgnoreFilesFirst base then False
         else if category_matches scenario2_parser AllowFiles base then True
         else if category_matches scenario2_parser IgnoreFiles base then False
         else if category_matches scenario2_parser IgnoreExts ext then False
         else if ignoreFilesByDefault (opts scenario2_parser) = JBool True then False
         else True)"
  have "?rhs ''/root/README.md''" by code_simp
  moreover have "\<not> ?rhs ''/root/readme.bak''" by code_simp
  moreover have "\<not> ?rhs ''/root/notes.txt''" by code_simp
  moreover have "\<not> ?rhs ''/root/other.md''" by code_simp
  ultimately show ?thesis
    by (simp only: file_decision_precedence [of scenario2_parser] simp_thms)
qed

lemma rel_path_begins_with_sep: "take 1 (rel_path p filePath) = path_sep"
  by (simp add: rel_path_def Let_def path_sep_def)

text \<open>
  C3. The Directory decision, on the path relative to the root (made to begin with the
  separator) and the bare entry name: a match of \<open>allowPaths\<close> on the relative path
  allows; otherwise a match of \<open>ignorePaths\<close> on it denies; otherwise a match of
  \<open>ignoreDirs\<close> on the entry name denies; otherwise the directory is denied exactly
  when \<open>ignorePathsByDefault\<close> is the boolean \<open>true\<close>.
\<close>

theorem dir_decision_precedence:
  "fst (doWeProcessDir p filePath entry) =
     (let rel = rel_path p filePath
      in if category_matches p AllowPaths rel then True
         else if category_matches p IgnorePaths rel then False
         else if category_matches p IgnoreDirs entry then False
         else if ignorePathsByDefault (opts p) = JBool True then False
         else True)"
  by (simp add: fst_doWeProcessDir category_matches_def Let_def)

theorem dir_decision_precedence_witness:
  "\<not> fst (doWeProcessDir scenario3_parser ''/root/node_modules'' ''node_modules'')
   \<and> fst (doWeProcessDir scenario3_parser ''/root/vendor/keep'' ''keep'')
   \<and> \<not> fst (doWeProcessDir scenario3_parser ''/root/vendor/x'' ''x'')
   \<and> \<not> fst (doWeProcessDir scenario3_parser ''/root/sub'' ''sub'')
   \<and> take 1 (rel_path scenario3_parser ''/root/sub'') = path_sep"
proof -
  let ?rhs = "\<lambda>f e. (let rel = rel_path scenario3_parser f
      in if category_matches scenario3_parser AllowPaths rel then True
         else if category_matches scenario3_parser IgnorePaths rel then False
         else if category_matches scenario3_parser IgnoreDirs e then False
         else if ignorePathsByDefault (opts scenario3_parser) = JBool True then False
         else True)"
  have "\<not> ?rhs ''/root/node_modules'' ''node_modules''" by code_simp
  moreover have "?rhs ''/root/vendor/keep'' ''keep''" by code_simp
  moreover have "\<not> ?rhs ''/root/vendor/x'' ''x''" by code_simp
  moreover have "\<not> ?rhs ''/root/sub'' ''sub''" by code_simp
  moreover have "take 1 (rel_path scenario3_parser ''/root/sub'') = path_sep" by code_simp
  ultimately show ?thesis
    by (simp only: dir_decision_precedence [of scenario3_parser] simp_thms)
qed

text \<open>
  C10. The default policies are tested with \<^verbatim>\<open>=== true\<close>: a file that reaches the
  default branch of the File decision is allowed whenever \<open>ignoreFilesByDefault\<close> is
  anything but the boolean \<open>true\<close>, and a directory that reaches the default branch of
  the Directory decision is allowed whenever \<open>ignorePathsByDefault\<close> is anything but
  the boolean \<open>true\<close>.
\<close>

theorem default_policy_strict:
  "(file_reaches_default p filePath \<and> ignoreFilesByDefault (opts p) \<noteq> JBool True
      \<longrightarrow> fst (doWeProcessFile p filePath))
   \<and> (dir_reaches_default p dirPath entry \<and> ignorePathsByDefault (opts p) \<noteq> JBool True
      \<longrightarrow> fst (doWeProcessDir p dirPath entry))"
  by (simp add: fst_doWeProcessFile fst_doWeProcessDir file_reaches_default_def
      dir_reaches_default_def category_matches_def)

theorem default_policy_strict_witness:
  "file_reaches_default loose_defaults_parser ''/root/a.txt''
   \<and> ignoreFilesByDefault (opts loose_defaults_parser) = JStr ''true''
   \<and> fst (doWeProcessFile loose_defaults_parser ''/root/a.txt'')
   \<and> dir_reaches_default loose_defaults_parser ''/root/sub'' ''sub''
   \<and> ignorePathsByDefault (opts loose_defaults_parser) = JNum 1
   \<and> fst (doWeProcessDir loose_defaults_parser ''/root/sub'' ''sub'')"
proof -
  have f: "file_reaches_default loose_defaults_parser ''/root/a.txt''" by code_simp
  have fd: "ignoreFilesByDefault (opts loose_defaults_parser) = JStr ''true''" by code_simp
  have d: "dir_reaches_default loose_defaults_parser ''/root/sub'' ''sub''" by code_simp
  have pd: "ignorePathsByDefault (opts loose_defaults_parser) = JNum 1" by code_simp
  from f fd d pd
    default_policy_strict [of loose_defaults_parser "''/root/a.txt''" "''/root/sub''" "''sub''"]
  show ?thesis by simp
qed

lemma freeformCheckFile_throws: "freeformCheckFile p file = (Inl TypeError, p)"
  by (simp add: freeformCheckFile_def path_join_def Let_def split: prod.splits)

lemma scenario1_parser_constructed:
  "FsParser_new ''/root'' ''/root'' scenario1_opts = Inr scenario1_parser"
  by (simp add: FsParser_new_def configureRegex_def configure_item_def scenario1_opts_def
      scenario1_parser_def no_options_def val_truthy_def js_truthy_def makeArray_def
      sanitizeFileRegex_def sanitizeFile_step_def js_index0_def regexEscape_def escape_text_def escape_char_def
      escape_chars_def backslash_def path_sep_def js_to_string_def fun_upd_twist)

text \<open>
  C7. \<^verbatim>\<open>freeformCheckFile\<close> hands the array of path segments to \<^verbatim>\<open>path.join\<close>, which
  throws a \<^verbatim>\<open>TypeError\<close>: no decision is evaluated and no boolean is returned, for
  any parser and any path.
\<close>

theorem freeformCheckFile_scenario4:
  "fst (freeformCheckFile scenario1_parser ''/root/node_modules/c.js'') = Inl TypeError"
  by (simp add: freeformCheckFile_throws)

section \<open>Properties of the traversal\<close>

lemma path_join_two: "path_join [Scalar (JStr dir), Scalar (JStr entry)] = Inr (path_join2 dir entry)"
  by (simp add: path_join2_def path_join_def)

lemma same_config_refl [simp]: "same_config p p"
  by (simp add: same_config_def)

lemma same_config_trans: "same_config r q \<Longrightarrow> same_config q p \<Longrightarrow> same_config r p"
  by (simp add: same_config_def)

lemma same_config_file_allowed: "same_config q p \<Longrightarrow> file_allowed q f = file_allowed p f"
  by (simp add: same_config_def file_allowed_def fst_doWeProcessFile rule_exec_def)

lemma same_config_dir_allowed: "same_config q p \<Longrightarrow> dir_allowed q = dir_allowed p"
  by (simp add: same_config_def dir_allowed_def fst_doWeProcessDir rule_exec_def rel_path_def fun_eq_iff)

lemma same_config_accepted: "same_config q p \<Longrightarrow> accepted_files q dir t = accepted_files p dir t"
  by (simp add: accepted_files_def same_config_dir_allowed same_config_file_allowed)

lemma doWeProcessFile_state:
  "same_config (snd (doWeProcessFile p f)) p \<and> results (snd (doWeProcessFile p f)) = results p"
proof -
  obtain msgs where "snd (doWeProcessFile p f) = p\<lparr>log := log p @ msgs\<rparr>"
    using snd_doWeProcessFile by blast
  then show ?thesis by (simp add: same_config_def)
qed

lemma doWeProcessDir_state:
  "same_config (snd (doWeProcessDir p f e)) p \<and> results (snd (doWeProcessDir p f e)) = results p"
proof -
  obtain msgs where "snd (doWeProcessDir p f e) = p\<lparr>log := log p @ msgs\<rparr>"
    using snd_doWeProcessDir by blast
  then show ?thesis by (simp add: same_config_def)
qed

lemma parseEntry_File:
  "parseEntry p dir entry File =
     (None, if file_allowed p (path_join2 dir entry)
            then (snd (doWeProcessFile p (path_join2 dir entry)))
                   \<lparr>results := results (snd (doWeProcessFile p (path_join2 dir entry))) @ [path_join2 dir entry]\<rparr>
            else snd (doWeProcessFile p (path_join2 dir entry)))"
  by (simp add: path_join_two file_allowed_def split: prod.splits bool.splits)

lemma parseEntry_Other: "parseEntry p dir entry Other = (None, p)"
  by (simp add: path_join_two)

lemma parseEntry_StatFails: "parseEntry p dir entry (StatFails e) = (Some (FsError e), p)"
  by (simp add: path_join_two)

lemma parseEntry_Directory:
  "parseEntry p dir entry (Directory es) =
     (None, if dir_allowed p (path_join2 dir entry) entry
            then snd (parseEntries (snd (doWeProcessDir p (path_join2 dir entry) entry)) (path_join2 dir entry) es)
            else snd (doWeProcessDir p (path_join2 dir entry) entry))"
  by (simp add: path_join_two dir_allowed_def split: prod.splits bool.splits)

lemma parseEntry_Unlistable:
  "parseEntry p dir entry (Unlistable e) = (None, snd (doWeProcessDir p (path_join2 dir entry) entry))"
  by (simp add: path_join_two dir_allowed_def split: prod.splits bool.splits)

lemmas parseEntry_cases = parseEntry_File parseEntry_Other parseEntry_StatFails
  parseEntry_Directory parseEntry_Unlistable

lemma parseEntries_Cons:
  "parseEntries p dir ((entry, n) # es) =
     ((case fst (parseEntry p dir entry n) of Some e \<Rightarrow> Some e
       | None \<Rightarrow> fst (parseEntries (snd (parseEntry p dir entry n)) dir es)),
      snd (parseEntries (snd (parseEntry p dir entry n)) dir es))"
  by (simp add: case_prod_beta del: parseEntry.simps)


lemma reachable_not_Directory:
  "reachable allow dir t f e n \<Longrightarrow> \<exists>es. t = Directory es"
  by (induction rule: reachable.induct) auto

lemma reachable_below:
  assumes "reachable allow sub (Directory es') f e n"
    and "(entry, Directory es') \<in> set es" and "allow (path_join2 dir entry) entry"
    and "sub = path_join2 dir entry"
  shows "reachable allow dir (Directory es) f e n"
  using assms
proof (induction rule: reachable.induct)
  case (root_entry es0 e n)
  then have "reachable allow dir (Directory es) (path_join2 dir entry) entry (Directory es0)"
    by (auto intro: reachable.root_entry)
  with root_entry show ?case by (auto intro: reachable.descend)
next
  case (descend subPath subEntry es0 e n)
  then show ?case by (auto intro: reachable.descend)
qed

lemma reachable_Directory_iff:
  "reachable allow dir (Directory es) f e n \<longleftrightarrow>
     (\<exists>entry c. (entry, c) \<in> set es \<and>
        ((f = path_join2 dir entry \<and> e = entry \<and> n = c)
         \<or> (allow (path_join2 dir entry) entry \<and> reachable allow (path_join2 dir entry) c f e n)))"
  (is "?L \<longleftrightarrow> ?R")
proof
  assume ?L
  then show ?R
  proof (induction rule: reachable.induct)
    case (root_entry es0 entry n)
    then show ?case by auto
  next
    case (descend subPath subEntry es0 entry n)
    from descend.IH obtain entry0 c where in0: "(entry0, c) \<in> set es"
      and alt: "(subPath = path_join2 dir entry0 \<and> subEntry = entry0 \<and> Directory es0 = c)
        \<or> (allow (path_join2 dir entry0) entry0
            \<and> reachable allow (path_join2 dir entry0) c subPath subEntry (Directory es0))"
      by auto
    from alt show ?case
    proof
      assume a: "subPath = path_join2 dir entry0 \<and> subEntry = entry0 \<and> Directory es0 = c"
      with descend.hyps have "reachable allow (path_join2 dir entry0) c (path_join2 subPath entry) entry n"
        by (auto intro: reachable.root_entry)
      with a descend.hyps in0 show ?thesis by auto
    next
      assume a: "allow (path_join2 dir entry0) entry0
            \<and> reachable allow (path_join2 dir entry0) c subPath subEntry (Directory es0)"
      with descend.hyps have "reachable allow (path_join2 dir entry0) c (path_join2 subPath entry) entry n"
        by (auto intro: reachable.descend)
      with a in0 show ?thesis by auto
    qed
  qed
next
  assume ?R
  then obtain entry c where in0: "(entry, c) \<in> set es"
    and alt: "(f = path_join2 dir entry \<and> e = entry \<and> n = c)
        \<or> (allow (path_join2 dir entry) entry \<and> reachable allow (path_join2 dir entry) c f e n)"
    by auto
  from alt show ?L
  proof
    assume "f = path_join2 dir entry \<and> e = entry \<and> n = c"
    with in0 show ?thesis by (auto intro: reachable.root_entry)
  next
    assume a: "allow (path_join2 dir entry) entry \<and> reachable allow (path_join2 dir entry) c f e n"
    then obtain es' where "c = Directory es'" using reachable_not_Directory by blast
    with a in0 show ?thesis by (auto intro: reachable_below)
  qed
qed

lemma accepted_files_not_Directory:
  "(\<And>es. t \<noteq> Directory es) \<Longrightarrow> accepted_files p dir t = {}"
  using reachable_not_Directory by (fastforce simp add: accepted_files_def)

lemma accepted_files_Nil [simp]: "accepted_files p dir (Directory []) = {}"
  by (simp add: accepted_files_def reachable_Directory_iff)

lemma reachable_Cons:
  "reachable allow dir (Directory (x # es)) f e n
   \<longleftrightarrow> reachable allow dir (Directory [x]) f e n \<or> reachable allow dir (Directory es) f e n"
  unfolding reachable_Directory_iff [of allow dir] by auto

lemma accepted_files_Cons:
  "accepted_files p dir (Directory (x # es))
   = accepted_files p dir (Directory [x]) \<union> accepted_files p dir (Directory es)"
  unfolding accepted_files_def reachable_Cons [of _ _ x es] by blast

lemma accepted_files_single_File:
  "accepted_files p dir (Directory [(entry, File)])
   = (if file_allowed p (path_join2 dir entry) then {path_join2 dir entry} else {})"
  using reachable_not_Directory [of "dir_allowed p" "path_join2 dir entry" File]
  by (auto simp add: accepted_files_def reachable_Directory_iff)

lemma accepted_files_single_Directory:
  "accepted_files p dir (Directory [(entry, Directory es)])
   = (if dir_allowed p (path_join2 dir entry) entry
      then accepted_files p (path_join2 dir entry) (Directory es) else {})"
  by (auto simp add: accepted_files_def reachable_Directory_iff [of _ dir])

lemma accepted_files_single_other:
  "n \<noteq> File \<Longrightarrow> (\<And>es. n \<noteq> Directory es) \<Longrightarrow> accepted_files p dir (Directory [(entry, n)]) = {}"
  using reachable_not_Directory [of "dir_allowed p" "path_join2 dir entry" n]
  by (auto simp add: accepted_files_def reachable_Directory_iff [of _ dir])

text \<open>What a walk does to the parser: the configuration stays, the collection grows by the accepted files.\<close>

lemma parseEntries_walk:
  assumes "\<And>entry n q d. (entry, n) \<in> set es \<Longrightarrow>
      same_config (snd (parseEntry q d entry n)) q
      \<and> set (results (snd (parseEntry q d entry n)))
          = set (results q) \<union> accepted_files q d (Directory [(entry, n)])"
  shows "same_config (snd (parseEntries p dir es)) p
      \<and> set (results (snd (parseEntries p dir es)))
          = set (results p) \<union> accepted_files p dir (Directory es)"
  using assms
proof (induction es arbitrary: p)
  case Nil
  show ?case by simp
next
  case (Cons x es)
  obtain entry n where x: "x = (entry, n)" by (cases x)
  let ?p1 = "snd (parseEntry p dir entry n)"
  have head: "same_config ?p1 p"
    "set (results ?p1) = set (results p) \<union> accepted_files p dir (Directory [(entry, n)])"
    using Cons.prems [of entry n p dir] by (simp_all add: x)
  have tail: "same_config (snd (parseEntries ?p1 dir es)) ?p1"
    "set (results (snd (parseEntries ?p1 dir es)))
       = set (results ?p1) \<union> accepted_files ?p1 dir (Directory es)"
    using Cons.IH [of ?p1] Cons.prems by simp_all
  have "accepted_files ?p1 dir (Directory es) = accepted_files p dir (Directory es)"
    by (rule same_config_accepted [OF head(1)])
  with head tail show ?case
    unfolding x parseEntries_Cons snd_conv accepted_files_Cons [of p dir "(entry, n)" es]
    by (auto intro: same_config_trans)
qed

lemma parseEntry_walk:
  "same_config (snd (parseEntry p dir entry n)) p
   \<and> set (results (snd (parseEntry p dir entry n)))
       = set (results p) \<union> accepted_files p dir (Directory [(entry, n)])"
proof (induction n arbitrary: p dir entry)
  case File
  show ?case
    using doWeProcessFile_state [of p "path_join2 dir entry"]
    by (simp add: parseEntry_File accepted_files_single_File same_config_def del: parseEntry.simps)
next
  case Other
  show ?case by (simp add: parseEntry_Other accepted_files_single_other del: parseEntry.simps)
next
  case (StatFails e)
  show ?case by (simp add: parseEntry_StatFails accepted_files_single_other del: parseEntry.simps)
next
  case (Unlistable e)
  show ?case
    using doWeProcessDir_state [of p "path_join2 dir entry" entry]
    by (simp add: parseEntry_Unlistable accepted_files_single_other del: parseEntry.simps)
next
  case (Directory es)
  let ?fp = "path_join2 dir entry"
  let ?p1 = "snd (doWeProcessDir p ?fp entry)"
  note d = doWeProcessDir_state [of p ?fp entry]
  have sub: "same_config (snd (parseEntries ?p1 ?fp es)) ?p1
      \<and> set (results (snd (parseEntries ?p1 ?fp es)))
          = set (results ?p1) \<union> accepted_files ?p1 ?fp (Directory es)"
  proof (rule parseEntries_walk)
    fix e n q d
    assume "(e, n) \<in> set es"
    then have "n \<in> Basic_BNFs.snds (e, n)" by simp
    with \<open>(e, n) \<in> set es\<close> show "same_config (snd (parseEntry q d e n)) q
      \<and> set (results (snd (parseEntry q d e n)))
          = set (results q) \<union> accepted_files q d (Directory [(e, n)])"
      by (rule Directory.IH)
  qed
  have "accepted_files ?p1 ?fp (Directory es) = accepted_files p ?fp (Directory es)"
    using d by (simp add: same_config_accepted)
  with sub d show ?case
    unfolding parseEntry_Directory accepted_files_single_Directory snd_conv
    by (auto intro: same_config_trans)
qed

lemma parseDir_walk:
  "same_config (snd (parseDir p dir t)) p
   \<and> set (results (snd (parseDir p dir t))) = set (results p) \<union> accepted_files p dir t"
proof (cases t)
  case (Directory es)
  then show ?thesis
    using parseEntries_walk [of es p dir] parseEntry_walk by simp
qed (simp_all add: accepted_files_not_Directory)

lemma parseEntry_outcome:
  "fst (parseEntry p dir entry n) = (case n of StatFails e \<Rightarrow> Some (FsError e) | _ \<Rightarrow> None)"
  by (cases n) (simp_all add: parseEntry_cases del: parseEntry.simps)

lemma parseEntries_outcome: "fst (parseEntries p dir es) = first_stat_failure es"
proof (induction es arbitrary: p)
  case Nil
  show ?case by simp
next
  case (Cons x es)
  obtain entry n where x: "x = (entry, n)" by (cases x)
  show ?case
    unfolding x parseEntries_Cons fst_conv parseEntry_outcome Cons.IH
    by (cases n) simp_all
qed

lemma parseDir_outcome: "fst (parseDir p dir t) = root_failure t"
  by (cases t) (simp_all add: parseEntries_outcome)

lemma parse_unfold:
  "parse p t =
     (case root_failure t of
        Some e \<Rightarrow> Inl e
      | None \<Rightarrow> Inr (results (snd (parseDir (p\<lparr>results := []\<rparr>) (startPath p) t))),
      snd (parseDir (p\<lparr>results := []\<rparr>) (startPath p) t))"
  using parseDir_outcome [of "p\<lparr>results := []\<rparr>" "startPath p" t]
  by (cases "parseDir (p\<lparr>results := []\<rparr>) (startPath p) t")
    (simp add: parse_def Let_def split: option.splits)

lemma parse_walk:
  assumes "root_failure t = None"
  shows "fst (parse p t) = Inr (results (snd (parse p t)))
       \<and> set (results (snd (parse p t))) = accepted_files p (startPath p) t"
proof -
  let ?p0 = "p\<lparr>results := []\<rparr>"
  have c: "same_config ?p0 p" by (simp add: same_config_def)
  from parseDir_walk [of ?p0 "startPath p" t]
  have "set (results (snd (parseDir ?p0 (startPath p) t))) = accepted_files ?p0 (startPath p) t"
    by simp
  then have "set (results (snd (parseDir ?p0 (startPath p) t))) = accepted_files p (startPath p) t"
    by (simp only: same_config_accepted [OF c])
  with assms show ?thesis by (simp add: parse_unfold)
qed

lemma readable_first_stat_failure:
  "\<forall>x \<in> set es. readable (snd x) \<Longrightarrow> first_stat_failure es = None"
proof (induction es)
  case Nil
  show ?case by simp
next
  case (Cons x es)
  obtain entry n where x: "x = (entry, n)" by (cases x)
  from Cons show ?case unfolding x by (cases n) simp_all
qed

text \<open>
  C1. On a directory tree (every listing and every \<^verbatim>\<open>statSync\<close> succeeds),
  \<^verbatim>\<open>parse\<close> returns the result collection, and the collection, whatever it held
  before the call, then contains exactly the files that are reachable from the root
  through directories passing the Directory decision and that pass the File decision.
  Every nested walk has done all its work by then: \<^verbatim>\<open>_parseDir\<close> contains no
  asynchronous step before its only \<^verbatim>\<open>await\<close>.
\<close>

theorem parse_complete:
  assumes "readable (Directory es)"
  shows "fst (parse p (Directory es)) = Inr (results (snd (parse p (Directory es))))
       \<and> set (results (snd (parse p (Directory es))))
           = accepted_files p (startPath p) (Directory es)"
proof -
  from assms have "root_failure (Directory es) = None"
    by (simp add: readable_first_stat_failure)
  then show ?thesis by (rule parse_walk)
qed

theorem parse_complete_witness:
  "readable scenario1_tree
   \<and> fst (parse scenario1_parser scenario1_tree) = Inr [''/root/a.txt'', ''/root/sub/b.md'']
   \<and> accepted_files scenario1_parser ''/root'' scenario1_tree = {''/root/a.txt'', ''/root/sub/b.md''}"
proof -
  have h: "readable scenario1_tree" by code_simp
  have r: "results (snd (parse scenario1_parser scenario1_tree)) = [''/root/a.txt'', ''/root/sub/b.md'']"
    by code_simp
  have s: "startPath scenario1_parser = ''/root''" by code_simp
  from parse_complete [OF h [unfolded scenario1_tree_def], of scenario1_parser] h show ?thesis
    unfolding r s scenario1_tree_def [symmetric] r by auto
qed

text \<open>
  C6 as stated fails: when an entry of the root vanishes before \<^verbatim>\<open>statSync\<close>,
  \<^verbatim>\<open>parse\<close> rejects with the error instead of returning the accepted files, and the
  log holds no record of the failure.
\<close>

theorem vanished_entry_rejects:
  "fst (parse scenario1_parser vanished_tree) = Inl (FsError ENOENT)
   \<and> log (snd (parse scenario1_parser vanished_tree))
       = [(''FsParser:_doWeProcessFile'', ''Processing file: /a.txt''),
          (''FsParser:_doWeProcessFile'', ''   => allow file by default''),
          (''FsParser:_doWeProcessFile'', ''Processing file: /b.txt''),
          (''FsParser:_doWeProcessFile'', ''   => allow file by default'')]"
  by code_simp

lemma parseEntries_failing_entries:
  "snd (parseEntries p dir es) = snd (parseEntries p dir (filter stat_ok es))"
proof (induction es arbitrary: p)
  case Nil
  show ?case by simp
next
  case (Cons x es)
  obtain entry n where x: "x = (entry, n)" by (cases x)
  show ?case
  proof (cases "stat_ok (entry, n)")
    case True
    then show ?thesis
      unfolding x using Cons.IH by (simp add: parseEntries_Cons del: parseEntries.simps parseEntry.simps)
  next
    case False
    then obtain e where "n = StatFails e" by (cases n) simp_all
    then show ?thesis
      unfolding x using Cons.IH
      by (simp add: parseEntries_Cons parseEntry_StatFails del: parseEntries.simps parseEntry.simps)
  qed
qed

text \<open>
  C6 (amended). A failure of listing the root, or of \<^verbatim>\<open>statSync\<close> on one of the
  root's own entries, is not caught: \<^verbatim>\<open>parse\<close> rejects with the first such error and
  returns the collection only when there is none. The failing entries of the root leave
  no trace: the parser ends with the collection and the log it would have without them,
  so no record describes the failure, and the other entries are processed all the same.
\<close>

theorem root_failure_rejects:
  "fst (parse p t) = (case root_failure t of Some e \<Rightarrow> Inl e | None \<Rightarrow> Inr (results (snd (parse p t))))
   \<and> snd (parse p (Directory es)) = snd (parse p (Directory (filter stat_ok es)))"
proof -
  have s: "snd (parse p u) = snd (parseDir (p\<lparr>results := []\<rparr>) (startPath p) u)" for u
    by (simp add: parse_unfold)
  have "fst (parse p t) = (case root_failure t of Some e \<Rightarrow> Inl e | None \<Rightarrow> Inr (results (snd (parse p t))))"
    unfolding s by (simp add: parse_unfold)
  moreover have "snd (parse p (Directory es)) = snd (parse p (Directory (filter stat_ok es)))"
    unfolding s using parseEntries_failing_entries [of _ _ es] by simp
  ultimately show ?thesis by simp
qed

theorem root_failure_rejects_witness:
  "root_failure vanished_tree = Some (FsError ENOENT)
   \<and> fst (parse scenario1_parser vanished_tree) = Inl (FsError ENOENT)
   \<and> results (snd (parse scenario1_parser vanished_tree)) = [''/root/a.txt'', ''/root/b.txt'']"
proof -
  have f: "root_failure vanished_tree = Some (FsError ENOENT)" by code_simp
  have v: "vanished_tree = Directory [(''a.txt'', File), (''gone'', StatFails ENOENT), (''b.txt'', File)]"
    by (simp add: vanished_tree_def)
  have k: "filter stat_ok [(''a.txt'', File), (''gone'', StatFails ENOENT), (''b.txt'', File)]
           = [(''a.txt'', File), (''b.txt'', File)]"
    by simp
  have r: "results (snd (parse scenario1_parser (Directory [(''a.txt'', File), (''b.txt'', File)])))
           = [''/root/a.txt'', ''/root/b.txt'']"
    by code_simp
  note inst = root_failure_rejects [of scenario1_parser vanished_tree
      "[(''a.txt'', File), (''gone'', StatFails ENOENT), (''b.txt'', File)]"]
  from inst have 1: "fst (parse scenario1_parser vanished_tree) = Inl (FsError ENOENT)"
    unfolding f by simp
  from inst have 2: "results (snd (parse scenario1_parser vanished_tree)) = [''/root/a.txt'', ''/root/b.txt'']"
    unfolding v k r [symmetric] by simp
  from f 1 2 show ?thesis by simp
qed

lemma parseEntries_pruned:
  assumes "\<And>entry n q d. (entry, n) \<in> set es \<Longrightarrow> same_config q p0 \<Longrightarrow>
      parseEntry q d entry n
      = parseEntry q d entry
          (if dir_allowed p0 (path_join2 d entry) entry
           then pruned (dir_allowed p0) (path_join2 d entry) n
           else (case n of Directory _ \<Rightarrow> Directory [] | _ \<Rightarrow> n))"
    and "same_config q p0"
  shows "parseEntries q d es = parseEntries q d (pruned_entries (dir_allowed p0) d es)"
  using assms
proof (induction es arbitrary: q)
  case Nil
  show ?case by simp
next
  case (Cons x es)
  obtain entry n where x: "x = (entry, n)" by (cases x)
  let ?n' = "if dir_allowed p0 (path_join2 d entry) entry
           then pruned (dir_allowed p0) (path_join2 d entry) n
           else (case n of Directory _ \<Rightarrow> Directory [] | _ \<Rightarrow> n)"
  have head: "parseEntry q d entry n = parseEntry q d entry ?n'"
    using Cons.prems(1) [of entry n q d] Cons.prems(2) by (simp add: x)
  have "same_config (snd (parseEntry q d entry ?n')) q"
    using parseEntry_walk by blast
  then have c: "same_config (snd (parseEntry q d entry ?n')) p0"
    using Cons.prems(2) by (rule same_config_trans)
  have tail: "parseEntries (snd (parseEntry q d entry ?n')) d es
      = parseEntries (snd (parseEntry q d entry ?n')) d (pruned_entries (dir_allowed p0) d es)"
    using Cons.IH [OF _ c] Cons.prems(1) by simp
  show ?case
    unfolding x pruned_entries.simps parseEntries_Cons head tail ..
qed

lemma parseEntry_pruned:
  "same_config q p0 \<Longrightarrow>
     parseEntry q d entry n
     = parseEntry q d entry
         (if dir_allowed p0 (path_join2 d entry) entry
          then pruned (dir_allowed p0) (path_join2 d entry) n
          else (case n of Directory _ \<Rightarrow> Directory [] | _ \<Rightarrow> n))"
proof (induction n arbitrary: q d entry)
  case (Directory es)
  let ?fp = "path_join2 d entry"
  let ?q1 = "snd (doWeProcessDir q ?fp entry)"
  have a: "dir_allowed q = dir_allowed p0"
    using Directory.prems by (rule same_config_dir_allowed)
  have c: "same_config ?q1 p0"
    using doWeProcessDir_state [of q ?fp entry] Directory.prems by (blast intro: same_config_trans)
  have sub: "parseEntries ?q1 ?fp es = parseEntries ?q1 ?fp (pruned_entries (dir_allowed p0) ?fp es)"
  proof (rule parseEntries_pruned [OF _ c])
    fix e n r d'
    assume "(e, n) \<in> set es" and r: "same_config r p0"
    then have "n \<in> Basic_BNFs.snds (e, n)" by simp
    with \<open>(e, n) \<in> set es\<close> show "parseEntry r d' e n
      = parseEntry r d' e
          (if dir_allowed p0 (path_join2 d' e) e
           then pruned (dir_allowed p0) (path_join2 d' e) n
           else (case n of Directory _ \<Rightarrow> Directory [] | _ \<Rightarrow> n))"
      using r by (rule Directory.IH)
  qed
  show ?case
    by (simp add: parseEntry_Directory a sub del: parseEntry.simps parseEntries.simps)
qed (simp_all del: parseEntry.simps)

lemma parseDir_pruned:
  assumes "same_config q p0"
  shows "parseDir q d t = parseDir q d (pruned (dir_allowed p0) d t)"
proof (cases t)
  case (Directory es)
  have "parseEntries q d es = parseEntries q d (pruned_entries (dir_allowed p0) d es)"
    using parseEntry_pruned assms by (rule parseEntries_pruned)
  then show ?thesis by (simp add: Directory)
qed simp_all

text \<open>
  C9. A directory that the Directory decision denies is not descended into: the callback
  of such an entry leaves the parser as the decision itself left it (nothing is added to
  the collection, and the log gets the records of that decision only), whatever the
  directory contains; and the whole run, its result and its log, is the run on the tree
  in which every denied directory is empty.
\<close>

theorem denied_directory_pruned:
  "(\<not> dir_allowed p (path_join2 dir entry) entry \<longrightarrow>
      parseEntry p dir entry (Directory es)
      = (None, snd (doWeProcessDir p (path_join2 dir entry) entry)))
   \<and> parse p t = parse p (pruned (dir_allowed p) (startPath p) t)"
proof -
  have c: "same_config (p\<lparr>results := []\<rparr>) p" by (simp add: same_config_def)
  have "parseDir (p\<lparr>results := []\<rparr>) (startPath p) t
      = parseDir (p\<lparr>results := []\<rparr>) (startPath p) (pruned (dir_allowed p) (startPath p) t)"
    using c by (rule parseDir_pruned)
  then have "parse p t = parse p (pruned (dir_allowed p) (startPath p) t)"
    by (simp add: parse_def)
  then show ?thesis
    by (simp add: parseEntry_Directory del: parseEntry.simps)
qed

theorem denied_directory_pruned_witness:
  "\<not> dir_allowed scenario1_parser ''/root/node_modules'' ''node_modules''
   \<and> pruned (dir_allowed scenario1_parser) ''/root'' scenario1_tree
       = Directory [(''a.txt'', File), (''sub'', Directory [(''b.md'', File)]),
                    (''node_modules'', Directory [])]
   \<and> fst (parse scenario1_parser scenario1_tree) = Inr [''/root/a.txt'', ''/root/sub/b.md'']
   \<and> log (snd (parse scenario1_parser scenario1_tree))
       = [(''FsParser:_doWeProcessFile'', ''Processing file: /a.txt''),
          (''FsParser:_doWeProcessFile'', ''   => allow file by default''),
          (''FsParser:_doWeProcessDir'', ''Processing directory: /sub''),
          (''FsParser:_doWeProcessDir'', ''   => allow dir by default''),
          (''FsParser:_doWeProcessFile'', ''Processing file: /sub/b.md''),
          (''FsParser:_doWeProcessFile'', ''   => allow file by default''),
          (''FsParser:_doWeProcessDir'', ''Processing directory: /node_modules''),
          (''FsParser:_doWeProcessDir'', ''   => ignore dir via: node_modules'')]"
proof -
  let ?t = "Directory [(''a.txt'', File), (''sub'', Directory [(''b.md'', File)]),
                    (''node_modules'', Directory [])]"
  have d: "\<not> dir_allowed scenario1_parser ''/root/node_modules'' ''node_modules''"
    by code_simp
  have s: "startPath scenario1_parser = ''/root''" by code_simp
  have pr: "pruned (dir_allowed scenario1_parser) ''/root'' scenario1_tree = ?t"
    by code_simp
  have r: "fst (parse scenario1_parser ?t) = Inr [''/root/a.txt'', ''/root/sub/b.md'']"
    by code_simp
  have l: "log (snd (parse scenario1_parser ?t))
       = [(''FsParser:_doWeProcessFile'', ''Processing file: /a.txt''),
          (''FsParser:_doWeProcessFile'', ''   => allow file by default''),
          (''FsParser:_doWeProcessDir'', ''Processing directory: /sub''),
          (''FsParser:_doWeProcessDir'', ''   => allow dir by default''),
          (''FsParser:_doWeProcessFile'', ''Processing file: /sub/b.md''),
          (''FsParser:_doWeProcessFile'', ''   => allow file by default''),
          (''FsParser:_doWeProcessDir'', ''Processing directory: /node_modules''),
          (''FsParser:_doWeProcessDir'', ''   => ignore dir via: node_modules'')]"
    by code_simp
  from denied_directory_pruned [of scenario1_parser _ _ _ scenario1_tree]
  have "parse scenario1_parser scenario1_tree = parse scenario1_parser ?t"
    unfolding s pr by simp
  with d pr r l show ?thesis by simp
qed

end
